theory Spec2Isabelle
  imports Complex_Main
begin

section \<open>Numbers\<close>

text \<open>
  A JavaScript number is an IEEE 754 double, an infinity or \<^verbatim>\<open>NaN\<close>. \<open>Finite q\<close> is the
  number that a document writes as \<open>q\<close>: the double nearest to \<open>q\<close>, with ties going to the
  even significand, or an infinity when \<open>q\<close> lies beyond the largest double. The two zeros
  are not told apart: the generator prints numbers and tests their truthiness, and both
  zeros print as \<^verbatim>\<open>0\<close> and are falsy.
\<close>

datatype number = NaN | PosInfinity | NegInfinity | Finite rat

definition hexdigit :: "nat \<Rightarrow> char" where
  "hexdigit n = ''0123456789abcdef'' ! n"

text \<open>The decimal digits of a counter or of a position in an array.\<close>

fun show_nat :: "nat \<Rightarrow> string" where
  "show_nat n = (if n < 10 then [hexdigit n] else show_nat (n div 10) @ [hexdigit (n mod 10)])"

declare show_nat.simps [simp del]

text \<open>The decimal digits of a non-negative integer, and the number of its digits to a base.\<close>

function show_digits :: "int \<Rightarrow> string" where
  "show_digits n =
     (if n < 10 then [hexdigit (nat n)]
      else show_digits (n div 10) @ [hexdigit (nat (n mod 10))])"
  by pat_completeness auto

termination show_digits
proof (relation "measure nat", goal_cases)
  case (2 n)
  then have "n div 10 < n" by (simp add: int_div_less_self)
  with 2 show ?case by simp
qed simp

declare show_digits.simps [simp del]

function digit_count :: "int \<Rightarrow> int \<Rightarrow> nat" where
  "digit_count b n = (if n \<le> 0 \<or> b < 2 then 0 else Suc (digit_count b (n div b)))"
  by pat_completeness auto

termination digit_count
proof (relation "measure (\<lambda>(b, n). nat n)", goal_cases)
  case (2 b n)
  then have "n div b < n" by (simp add: int_div_less_self)
  with 2 show ?case by simp
qed simp

declare digit_count.simps [simp del]

text \<open>
  For a positive \<open>q\<close>, \<open>magnitude b q\<close> is the integer \<open>n\<close> with \<open>b ^ (n - 1) \<le> q < b ^ n\<close>.
  A double has a significand of 53 bits and no exponent below \<open>-1074\<close>, which gives the
  spacing \<open>ulp q\<close> of the doubles around \<open>q\<close>. \<open>nearest_double q\<close> is the value of the
  double that a non-negative \<open>q\<close> is rounded to; it reaches \<open>2 ^ 1024\<close> exactly when \<open>q\<close> is
  rounded to infinity.
\<close>

definition magnitude :: "int \<Rightarrow> rat \<Rightarrow> int" where
  "magnitude b q =
     (if 1 \<le> q then int (digit_count b \<lfloor>q\<rfloor>)
      else 1 - int (digit_count b (\<lceil>1 / q\<rceil> - 1)))"

definition round_half_even :: "rat \<Rightarrow> int" where
  "round_half_even r =
     (if r - of_int \<lfloor>r\<rfloor> < 1 / 2 then \<lfloor>r\<rfloor>
      else if 1 / 2 < r - of_int \<lfloor>r\<rfloor> then \<lfloor>r\<rfloor> + 1
      else if even \<lfloor>r\<rfloor> then \<lfloor>r\<rfloor> else \<lfloor>r\<rfloor> + 1)"

definition ulp :: "rat \<Rightarrow> rat" where
  "ulp q = 2 powi (max (magnitude 2 q - 53) (- 1074))"

definition nearest_double :: "rat \<Rightarrow> rat" where
  "nearest_double q = of_int (round_half_even (q / ulp q)) * ulp q"

fun Number_isFinite :: "number \<Rightarrow> bool" where
  "Number_isFinite (Finite q) = (nearest_double \<bar>q\<bar> < 2 ^ 1024)"
| "Number_isFinite _ = False"

fun number_truthy :: "number \<Rightarrow> bool" where
  "number_truthy NaN = False"
| "number_truthy (Finite q) = (nearest_double \<bar>q\<bar> \<noteq> 0)"
| "number_truthy _ = True"

text \<open>
  \<^verbatim>\<open>Number::toString\<close> of ECMAScript for a positive double \<open>x\<close> takes the integers \<open>k\<close>,
  \<open>s\<close>, \<open>n\<close> with \<open>k\<close> as small as possible such that \<open>s\<close> has \<open>k\<close> digits and the decimal
  \<open>s * 10 ^ (n - k)\<close> is rounded to \<open>x\<close>; among several \<open>s\<close> the one whose decimal is
  closest to \<open>x\<close>, and the even one of two at the same distance. Seventeen digits identify
  every double. The decimal is written in full when \<open>-5 \<le> n \<le> 21\<close> and with an exponent
  otherwise.
\<close>

definition candidates :: "rat \<Rightarrow> nat \<Rightarrow> (int \<times> int) list" where
  "candidates x k =
     concat (map (\<lambda>n. filter (\<lambda>(s, n). 10 ^ (k - 1) \<le> s \<and> s < 10 ^ k
                                \<and> nearest_double (of_int s * 10 powi (n - int k)) = x)
                    [(\<lfloor>x / 10 powi (n - int k)\<rfloor>, n), (\<lfloor>x / 10 powi (n - int k)\<rfloor> + 1, n)])
        [magnitude 10 x, magnitude 10 x + 1])"

definition distance :: "rat \<Rightarrow> nat \<Rightarrow> int \<times> int \<Rightarrow> rat" where
  "distance x k c = \<bar>of_int (fst c) * 10 powi (snd c - int k) - x\<bar>"

fun closest :: "rat \<Rightarrow> nat \<Rightarrow> (int \<times> int) list \<Rightarrow> int \<times> int" where
  "closest x k [] = (0, 0)"
| "closest x k [c] = c"
| "closest x k (c # d # cs) =
     (let b = closest x k (d # cs)
      in if distance x k c < distance x k b \<or> (distance x k c = distance x k b \<and> even (fst c))
         then c else b)"

fun shortest :: "rat \<Rightarrow> nat \<Rightarrow> nat \<Rightarrow> nat \<times> int \<times> int" where
  "shortest x k 0 = (k, closest x k (candidates x k))"
| "shortest x k (Suc fuel) =
     (if candidates x k \<noteq> [] then (k, closest x k (candidates x k))
      else shortest x (Suc k) fuel)"

definition decimal :: "nat \<times> int \<times> int \<Rightarrow> string" where
  "decimal ksn =
     (case ksn of (k, s, n) \<Rightarrow>
        if - 5 \<le> n \<and> n \<le> 21 then
          (if int k \<le> n then show_digits s @ replicate (nat (n - int k)) CHR ''0''
           else if 0 < n then take (nat n) (show_digits s) @ ''.'' @ drop (nat n) (show_digits s)
           else ''0.'' @ replicate (nat (- n)) CHR ''0'' @ show_digits s)
        else
          (if k = 1 then show_digits s
           else hd (show_digits s) # ''.'' @ tl (show_digits s))
          @ ''e'' @ (if 0 \<le> n - 1 then ''+'' else ''-'') @ show_digits \<bar>n - 1\<bar>)"

definition Number_toString :: "number \<Rightarrow> string" where
  "Number_toString x =
     (case x of
        NaN \<Rightarrow> ''NaN''
      | PosInfinity \<Rightarrow> ''Infinity''
      | NegInfinity \<Rightarrow> ''-Infinity''
      | Finite q \<Rightarrow>
          if nearest_double \<bar>q\<bar> = 0 then ''0''
          else if 2 ^ 1024 \<le> nearest_double \<bar>q\<bar>
            then (if q < 0 then ''-Infinity'' else ''Infinity'')
          else (if q < 0 then ''-'' else []) @ decimal (shortest (nearest_double \<bar>q\<bar>) 1 16))"

section \<open>JSON values as the generator sees them\<close>

text \<open>
  The generator and the parser work on loosely typed schema fragments (\<^verbatim>\<open>unknown\<close>
  cast to records of optional fields). A fragment is therefore modelled as a plain JSON
  tree. An object is the list of its own properties in the order in which
  \<^verbatim>\<open>Object.entries\<close> and \<^verbatim>\<open>JSON.stringify\<close> enumerate them: the names that are array
  indices in ascending order, then the other names in the order of their insertion
  (\<open>Object_fromEntries\<close> below builds this list from the insertions). A JavaScript
  object has no duplicate keys, so lists with repeated keys stand for no real input.
  \<^verbatim>\<open>undefined\<close> is \<open>None\<close> of \<open>json option\<close>.
\<close>

datatype json = JNull | JBool bool | JNum number | JStr string
  | JArr "json list" | JObj "(string \<times> json) list"

datatype error = TypeError | GenerationError

type_synonym 'a result = "error + 'a"

text \<open>Truthiness of a defined value, and of a possibly undefined one.\<close>

fun truthy :: "json \<Rightarrow> bool" where
  "truthy JNull = False"
| "truthy (JBool b) = b"
| "truthy (JNum x) = number_truthy x"
| "truthy (JStr s) = (s \<noteq> [])"
| "truthy (JArr xs) = True"
| "truthy (JObj kvs) = True"

fun truthy_opt :: "json option \<Rightarrow> bool" where
  "truthy_opt None = False"
| "truthy_opt (Some v) = truthy v"

text \<open>
  Reading one of the fields \<^verbatim>\<open>type\<close>, \<^verbatim>\<open>enum\<close>, \<^verbatim>\<open>items\<close>, \<^verbatim>\<open>properties\<close>,
  \<^verbatim>\<open>nullable\<close>, \<^verbatim>\<open>required\<close>, \<^verbatim>\<open>description\<close> of a value that is not \<^verbatim>\<open>null\<close>:
  only an object can have them.
\<close>

fun get_field :: "json \<Rightarrow> string \<Rightarrow> json option" where
  "get_field (JObj kvs) k = map_of kvs k"
| "get_field _ k = None"

subsection \<open>String conversion\<close>

text \<open>\<^verbatim>\<open>Array.prototype.join\<close> on an array of strings.\<close>

fun join :: "string \<Rightarrow> string list \<Rightarrow> string" where
  "join sep [] = []"
| "join sep [x] = x"
| "join sep (x # y # ys) = x @ sep @ join sep (y # ys)"

text \<open>
  The string a template literal \<^verbatim>\<open>`${v}`\<close> inserts for a JSON value: an array joins its
  elements with commas (\<^verbatim>\<open>null\<close> elements give the empty string), an object gives
  \<^verbatim>\<open>[object Object]\<close>.
\<close>

fun js_string :: "json \<Rightarrow> string"
  and js_string_elements :: "json list \<Rightarrow> string"
where
  "js_string JNull = ''null''"
| "js_string (JBool b) = (if b then ''true'' else ''false'')"
| "js_string (JNum x) = Number_toString x"
| "js_string (JStr s) = s"
| "js_string (JArr xs) = js_string_elements xs"
| "js_string (JObj kvs) = ''[object Object]''"
| "js_string_elements [] = []"
| "js_string_elements [x] = (if x = JNull then [] else js_string x)"
| "js_string_elements (x # y # ys) =
     (if x = JNull then [] else js_string x) @ '','' @ js_string_elements (y # ys)"

text \<open>
  \<^verbatim>\<open>Object.entries\<close> of a truthy value: the properties of an object, the indexed
  elements of an array, the indexed characters of a string, nothing for a number or a
  boolean. \<^verbatim>\<open>Object.keys\<close> are the names of the entries.
\<close>

fun indexed :: "nat \<Rightarrow> 'a list \<Rightarrow> (string \<times> 'a) list" where
  "indexed i [] = []"
| "indexed i (x # xs) = (show_nat i, x) # indexed (Suc i) xs"

fun Object_entries :: "json \<Rightarrow> (string \<times> json) list" where
  "Object_entries (JObj kvs) = kvs"
| "Object_entries (JArr xs) = indexed 0 xs"
| "Object_entries (JStr s) = indexed 0 (map (\<lambda>c. JStr [c]) s)"
| "Object_entries _ = []"

definition Object_keys :: "json \<Rightarrow> string list" where
  "Object_keys v = map fst (Object_entries v)"

text \<open>
  How an object gets its properties. Assigning to a name that the object has replaces
  the value where it is; a new name is created after the existing ones. The own
  properties are enumerated with the array indices first, in ascending order, then the
  other names in the order of their creation; an array index is the decimal numeral of
  an integer below \<open>2 ^ 32 - 1\<close>. \<^verbatim>\<open>Object.fromEntries\<close> inserts the given entries one
  after the other, as a parser does with the members of an object of a document.
\<close>

definition array_index :: "string \<Rightarrow> int option" where
  "array_index k =
     (let n = foldl (\<lambda>a c. 10 * a + (int (of_char c) - 48)) 0 k
      in if show_digits n = k \<and> n < 4294967295 then Some n else None)"

fun set_property :: "(string \<times> 'v) list \<Rightarrow> string \<Rightarrow> 'v \<Rightarrow> (string \<times> 'v) list" where
  "set_property [] k v = [(k, v)]"
| "set_property ((k', v') # kvs) k v =
     (if k' = k then (k, v) # kvs else (k', v') # set_property kvs k v)"

definition own_property_order :: "(string \<times> 'v) list \<Rightarrow> (string \<times> 'v) list" where
  "own_property_order kvs =
     sort_key (\<lambda>kv. the (array_index (fst kv))) (filter (\<lambda>kv. array_index (fst kv) \<noteq> None) kvs)
     @ filter (\<lambda>kv. array_index (fst kv) = None) kvs"

definition Object_fromEntries :: "(string \<times> json) list \<Rightarrow> json" where
  "Object_fromEntries entries =
     JObj (own_property_order (foldl (\<lambda>kvs (k, v). set_property kvs k v) [] entries))"

section \<open>The fingerprint: \<^verbatim>\<open>JSON.stringify\<close>\<close>

text \<open>
  Both \<^verbatim>\<open>extractComponentNames\<close> (parser) and \<^verbatim>\<open>extractNestedSchema\<close> (generator) key
  a schema by \<^verbatim>\<open>JSON.stringify(schema)\<close>. Strings are quoted with the escapes of the
  ECMAScript \<^verbatim>\<open>QuoteJSONString\<close> operation; members are written in enumeration order;
  a number that is not finite is written as \<^verbatim>\<open>null\<close>.
\<close>

definition escape_char :: "char \<Rightarrow> string" where
  "escape_char c =
     (if c = CHR 0x22 then [CHR 0x5C, CHR 0x22]
      else if c = CHR 0x5C then [CHR 0x5C, CHR 0x5C]
      else if c = CHR 0x08 then [CHR 0x5C, CHR ''b'']
      else if c = CHR 0x0C then [CHR 0x5C, CHR ''f'']
      else if c = CHR 0x0A then [CHR 0x5C, CHR ''n'']
      else if c = CHR 0x0D then [CHR 0x5C, CHR ''r'']
      else if c = CHR 0x09 then [CHR 0x5C, CHR ''t'']
      else if (of_char c :: nat) < 32
        then [CHR 0x5C, CHR ''u'', CHR ''0'', CHR ''0'',
              hexdigit (of_char c div 16), hexdigit (of_char c mod 16)]
      else [c])"

definition quote :: "string \<Rightarrow> string" where
  "quote s = CHR 0x22 # concat (map escape_char s) @ [CHR 0x22]"

fun JSON_stringify :: "json \<Rightarrow> string"
  and stringify_elements :: "json list \<Rightarrow> string"
  and stringify_members :: "(string \<times> json) list \<Rightarrow> string"
where
  "JSON_stringify JNull = ''null''"
| "JSON_stringify (JBool b) = (if b then ''true'' else ''false'')"
| "JSON_stringify (JNum x) = (if Number_isFinite x then Number_toString x else ''null'')"
| "JSON_stringify (JStr s) = quote s"
| "JSON_stringify (JArr xs) = ''['' @ stringify_elements xs @ '']''"
| "JSON_stringify (JObj kvs) = ''{'' @ stringify_members kvs @ ''}''"
| "stringify_elements [] = []"
| "stringify_elements [x] = JSON_stringify x"
| "stringify_elements (x # y # ys) = JSON_stringify x @ '','' @ stringify_elements (y # ys)"
| "stringify_members [] = []"
| "stringify_members [(k, v)] = quote k @ '':'' @ JSON_stringify v"
| "stringify_members ((k, v) # m # ms) =
     quote k @ '':'' @ JSON_stringify v @ '','' @ stringify_members (m # ms)"

section \<open>Generator state\<close>

text \<open>
  \<^verbatim>\<open>extractedSchemas\<close> is a JavaScript \<^verbatim>\<open>Map\<close> from fingerprint to
  \<^verbatim>\<open>{ schema, name }\<close>: an association list in insertion order, which is the order
  \<^verbatim>\<open>values()\<close> iterates. \<^verbatim>\<open>componentSchemas\<close> is the fingerprint-to-name record
  handed over by the parser; a lookup counts as a hit when the stored name is truthy,
  that is a non-empty string.
\<close>

record 's extracted =
  schema :: 's
  name :: string

record 's generator_state =
  extractedSchemas :: "(string \<times> 's extracted) list"
  schemaCounter :: nat
  componentSchemas :: "string \<rightharpoonup> string"

type_synonym generator = "json generator_state"

definition map_has :: "(string \<times> 'v) list \<Rightarrow> string \<Rightarrow> bool" where
  "map_has m k = (map_of m k \<noteq> None)"

definition map_get :: "(string \<times> 'v) list \<Rightarrow> string \<Rightarrow> 'v option" where
  "map_get m k = map_of m k"

fun map_set :: "(string \<times> 'v) list \<Rightarrow> string \<Rightarrow> 'v \<Rightarrow> (string \<times> 'v) list" where
  "map_set [] k v = [(k, v)]"
| "map_set ((k', v') # m) k v = (if k' = k then (k, v) # m else (k', v') # map_set m k v)"

definition map_values :: "(string \<times> 'v) list \<Rightarrow> 'v list" where
  "map_values m = map snd m"

definition lookup_truthy :: "(string \<rightharpoonup> string) \<Rightarrow> string \<Rightarrow> string option" where
  "lookup_truthy r k = (case r k of None \<Rightarrow> None | Some n \<Rightarrow> if n = [] then None else Some n)"

text \<open>The reset at the start of \<^verbatim>\<open>generate\<close>.\<close>

definition reset :: "(string \<rightharpoonup> string) \<Rightarrow> 's generator_state" where
  "reset comps = \<lparr>extractedSchemas = [], schemaCounter = 0, componentSchemas = comps\<rparr>"

section \<open>Extraction policy and registration\<close>

definition shouldExtractNestedSchema :: "json \<Rightarrow> bool" where
  "shouldExtractNestedSchema s =
     (case get_field s ''properties'' of
        None \<Rightarrow> False
      | Some p \<Rightarrow> if \<not> truthy p then False else 3 \<le> length (Object_keys p))"

text \<open>
  \<^verbatim>\<open>extractNestedSchema\<close> computes the key and then registers the schema under it;
  \<open>register_schema\<close> is the function's body after the key is computed.
\<close>

definition register_schema ::
  "string \<Rightarrow> 's \<Rightarrow> 's generator_state \<Rightarrow> string \<times> 's generator_state"
where
  "register_schema schemaKey s g =
     (case lookup_truthy (componentSchemas g) schemaKey of
        Some componentName \<Rightarrow>
          (componentName,
           if \<not> map_has (extractedSchemas g) schemaKey
           then g\<lparr>extractedSchemas :=
                    map_set (extractedSchemas g) schemaKey \<lparr>schema = s, name = componentName\<rparr>\<rparr>
           else g)
      | None \<Rightarrow>
          (case map_get (extractedSchemas g) schemaKey of
             Some e \<Rightarrow> (name e, g)
           | None \<Rightarrow>
               (let g1 = g\<lparr>schemaCounter := schemaCounter g + 1\<rparr>;
                    nm = ''NestedType'' @ show_nat (schemaCounter g1)
                in (nm, g1\<lparr>extractedSchemas :=
                              map_set (extractedSchemas g1) schemaKey \<lparr>schema = s, name = nm\<rparr>\<rparr>))))"

definition extractNestedSchema :: "json \<Rightarrow> generator \<Rightarrow> string \<times> generator" where
  "extractNestedSchema s g = register_schema (JSON_stringify s) s g"

section \<open>Type synthesis: \<^verbatim>\<open>schemaToTypeScript\<close>\<close>

text \<open>
  A measure for the recursion through \<^verbatim>\<open>items\<close> and through the entries of
  \<^verbatim>\<open>properties\<close> (the entries of a string are its one-character strings).
\<close>

fun depth_measure :: "json \<Rightarrow> nat"
  and entries_measure :: "json list \<Rightarrow> nat"
  and members_measure :: "(string \<times> json) list \<Rightarrow> nat"
where
  "depth_measure JNull = 0"
| "depth_measure (JBool b) = 0"
| "depth_measure (JNum i) = 0"
| "depth_measure (JStr s) = length s - 1"
| "depth_measure (JArr xs) = Suc (entries_measure xs)"
| "depth_measure (JObj kvs) = Suc (members_measure kvs)"
| "entries_measure [] = 0"
| "entries_measure (x # xs) = Suc (depth_measure x) + entries_measure xs"
| "members_measure [] = 0"
| "members_measure ((k, v) # kvs) = Suc (depth_measure v) + members_measure kvs"

text \<open>
  \<^verbatim>\<open>s.enum.map(v => `'${v}'`)\<close>: defined for an array; any other truthy value has no
  \<^verbatim>\<open>map\<close> method and the call raises a \<^verbatim>\<open>TypeError\<close>.
\<close>

definition quoted_literals :: "json \<Rightarrow> string list result" where
  "quoted_literals e =
     (case e of
        JArr vs \<Rightarrow> Inr (map (\<lambda>v. [CHR 0x27] @ js_string v @ [CHR 0x27]) vs)
      | _ \<Rightarrow> Inl TypeError)"

function (sequential) schemaToTypeScript :: "json \<Rightarrow> generator \<Rightarrow> (string \<times> generator) result"
  and inlineProps :: "(string \<times> json) list \<Rightarrow> generator \<Rightarrow> (string list \<times> generator) result"
where
  "schemaToTypeScript (JObj fs) g =
     (let s = JObj fs;
          nullable = (\<lambda>tsType. if truthy_opt (get_field s ''nullable'')
                                then tsType @ '' | null'' else tsType)
      in
      if truthy_opt (get_field s ''enum'') then
        (case quoted_literals (the (get_field s ''enum'')) of
           Inl e \<Rightarrow> Inl e
         | Inr lits \<Rightarrow> Inr (nullable (join '' | '' lits), g))
      else if get_field s ''type'' = Some (JStr ''string'') then Inr (nullable ''string'', g)
      else if get_field s ''type'' = Some (JStr ''integer'')
            \<or> get_field s ''type'' = Some (JStr ''number'') then Inr (nullable ''number'', g)
      else if get_field s ''type'' = Some (JStr ''boolean'') then Inr (nullable ''boolean'', g)
      else if get_field s ''type'' = Some (JStr ''array'') then
        (if truthy_opt (get_field s ''items'') then
           (case schemaToTypeScript (the (get_field s ''items'')) g of
              Inl e \<Rightarrow> Inl e
            | Inr (itemType, g1) \<Rightarrow> Inr (nullable (itemType @ ''[]''), g1))
         else Inr (nullable (''unknown'' @ ''[]''), g))
      else if get_field s ''type'' = Some (JStr ''object'') then
        (if truthy_opt (get_field s ''properties'') then
           (if shouldExtractNestedSchema s then
              (case extractNestedSchema s g of
                 (extractedName, g1) \<Rightarrow> Inr (nullable extractedName, g1))
            else
              (case inlineProps (Object_entries (the (get_field s ''properties''))) g of
                 Inl e \<Rightarrow> Inl e
               | Inr (props, g1) \<Rightarrow>
                   Inr (nullable (''{ '' @ join ''; '' props @ '' }''), g1)))
         else Inr (nullable ''Record<string, unknown>'', g))
      else Inr (nullable ''unknown'', g))"
| "schemaToTypeScript _ g = Inr (''unknown'', g)"
| "inlineProps [] g = Inr ([], g)"
| "inlineProps ((nm, propSchema) # ps) g =
     (case schemaToTypeScript propSchema g of
        Inl e \<Rightarrow> Inl e
      | Inr (propType, g1) \<Rightarrow>
          (case inlineProps ps g1 of
             Inl e \<Rightarrow> Inl e
           | Inr (rest, g2) \<Rightarrow> Inr ((nm @ '': '' @ propType) # rest, g2)))"
  by pat_completeness auto

termination schemaToTypeScript
proof -
  have indexed_measure: "members_measure (indexed i xs) = entries_measure xs"
    for i and xs :: "json list"
    by (induction xs arbitrary: i) auto
  have chars_measure: "entries_measure (map (\<lambda>c. JStr [c]) s) = length s" for s
    by (induction s) auto
  have entries_le: "members_measure (Object_entries p) \<le> Suc (depth_measure p)" for p
    by (cases p) (auto simp: indexed_measure chars_measure)
  have field_le: "map_of fs k = Some v \<Longrightarrow> Suc (depth_measure v) \<le> members_measure fs"
    for fs k v
    by (induction fs) (auto split: if_splits)
  have field_lt: "truthy_opt (get_field (JObj fs) k) \<Longrightarrow>
      Suc (depth_measure (the (get_field (JObj fs) k))) < depth_measure (JObj fs)" for fs k
    using field_le [of fs k] by (cases "map_of fs k") auto
  show ?thesis
  proof (relation "measure (\<lambda>x. case x of Inl (s, g) \<Rightarrow> depth_measure s
                                          | Inr (ps, g) \<Rightarrow> members_measure ps)", goal_cases)
    case 1
    then show ?case by simp
  next
    case (2 fs g s nullable)
    then show ?case using field_lt [of fs "''items''"] by simp
  next
    case (3 fs g s nullable)
    then show ?case
      using field_lt [of fs "''properties''"]
        entries_le [of "the (get_field (JObj fs) ''properties'')"] by simp
  next
    case 4
    then show ?case by simp
  next
    case 5
    then show ?case by simp
  qed
qed

section \<open>Validator synthesis: \<^verbatim>\<open>schemaToZodType\<close>\<close>

function (sequential) schemaToZodType :: "json \<Rightarrow> generator \<Rightarrow> (string \<times> generator) result"
where
  "schemaToZodType (JObj fs) g =
     (let s = JObj fs;
          nullable = (\<lambda>zodType. if truthy_opt (get_field s ''nullable'')
                                 then zodType @ ''.nullable()'' else zodType)
      in
      if truthy_opt (get_field s ''enum'') then
        (case quoted_literals (the (get_field s ''enum'')) of
           Inl e \<Rightarrow> Inl e
         | Inr lits \<Rightarrow> Inr (nullable (''enum(['' @ join '', '' lits @ ''])''), g))
      else if get_field s ''type'' = Some (JStr ''string'') then Inr (nullable ''string()'', g)
      else if get_field s ''type'' = Some (JStr ''integer'')
            \<or> get_field s ''type'' = Some (JStr ''number'') then Inr (nullable ''number()'', g)
      else if get_field s ''type'' = Some (JStr ''boolean'') then Inr (nullable ''boolean()'', g)
      else if get_field s ''type'' = Some (JStr ''array'') then
        (if truthy_opt (get_field s ''items'') then
           (let itemSchema = the (get_field s ''items'') in
            if get_field itemSchema ''type'' = Some (JStr ''object'')
               \<and> truthy_opt (get_field itemSchema ''properties'')
               \<and> shouldExtractNestedSchema itemSchema
            then
              (case extractNestedSchema itemSchema g of
                 (extractedName, g1) \<Rightarrow>
                   Inr (nullable (''array('' @ extractedName @ ''Schema)''), g1))
            else
              (case schemaToZodType itemSchema g of
                 Inl e \<Rightarrow> Inl e
               | Inr (itemType, g1) \<Rightarrow> Inr (nullable (''array(z.'' @ itemType @ '')''), g1)))
         else Inr (nullable ''array(z.unknown())'', g))
      else if get_field s ''type'' = Some (JStr ''object'') then
        (if truthy_opt (get_field s ''properties'') then
           (if shouldExtractNestedSchema s then
              (case extractNestedSchema s g of
                 (extractedName, g1) \<Rightarrow> Inr (nullable (extractedName @ ''Schema''), g1))
            else Inr (nullable ''record(z.unknown())'', g))
         else Inr (nullable ''record(z.unknown())'', g))
      else Inr (nullable ''unknown()'', g))"
| "schemaToZodType _ g = Inr (''unknown()'', g)"
  by pat_completeness auto

termination schemaToZodType
proof -
  have field_le: "map_of fs k = Some v \<Longrightarrow> Suc (depth_measure v) \<le> members_measure fs"
    for fs k v
    by (induction fs) (auto split: if_splits)
  have field_lt: "truthy_opt (get_field (JObj fs) k) \<Longrightarrow>
      Suc (depth_measure (the (get_field (JObj fs) k))) < depth_measure (JObj fs)" for fs k
    using field_le [of fs k] by (cases "map_of fs k") auto
  show ?thesis
  proof (relation "measure (\<lambda>(s, g). depth_measure s)", goal_cases)
    case 1
    then show ?case by simp
  next
    case (2 fs g s nullable itemSchema)
    then show ?case using field_lt [of fs "''items''"] by simp
  qed
qed

section \<open>Declarations: \<^verbatim>\<open>generateInterface\<close> and \<^verbatim>\<open>generateZodSchema\<close>\<close>

text \<open>
  \<^verbatim>\<open>required.includes(propName)\<close> with \<^verbatim>\<open>required = s.required || []\<close>: membership
  in an array, the substring test on a string, and a \<^verbatim>\<open>TypeError\<close> on any other
  truthy value, which has no \<^verbatim>\<open>includes\<close> method.
\<close>

definition required_or_empty :: "json \<Rightarrow> json" where
  "required_or_empty s =
     (if truthy_opt (get_field s ''required'') then the (get_field s ''required'') else JArr [])"

fun string_includes :: "string \<Rightarrow> string \<Rightarrow> bool" where
  "string_includes [] p = (p = [])"
| "string_includes (c # cs) p = (take (length p) (c # cs) = p \<or> string_includes cs p)"

fun array_includes :: "json \<Rightarrow> string \<Rightarrow> bool result" where
  "array_includes (JArr xs) p = Inr (JStr p \<in> set xs)"
| "array_includes (JStr str) p = Inr (string_includes str p)"
| "array_includes _ p = Inl TypeError"

definition newline :: string where
  "newline = [CHR 0x0A]"

text \<open>
  The \<^verbatim>\<open>for\<close> loop of \<^verbatim>\<open>generateInterface\<close>: one block of text per property (an
  optional documentation line and the member line), appended to \<^verbatim>\<open>result\<close> in
  order. A property whose schema is \<^verbatim>\<open>null\<close> raises a \<^verbatim>\<open>TypeError\<close> when
  \<^verbatim>\<open>prop.description\<close> is read, on every path through the body.
\<close>

definition doc_line :: "string \<Rightarrow> json \<Rightarrow> string" where
  "doc_line indentStr propSchema =
     (if truthy_opt (get_field propSchema ''description'')
      then indentStr @ ''  /** '' @ js_string (the (get_field propSchema ''description''))
           @ '' */'' @ newline
      else [])"

definition member_line :: "string \<Rightarrow> string \<Rightarrow> string \<Rightarrow> string \<Rightarrow> string" where
  "member_line indentStr propName optional tsType =
     indentStr @ ''  '' @ propName @ optional @ '': '' @ tsType @ '';'' @ newline"

fun interface_members ::
  "string \<Rightarrow> json \<Rightarrow> (string \<times> json) list \<Rightarrow> generator \<Rightarrow> (string list \<times> generator) result"
where
  "interface_members indentStr required [] g = Inr ([], g)"
| "interface_members indentStr required ((propName, propSchema) # ps) g =
     (case array_includes required propName of
        Inl e \<Rightarrow> Inl e
      | Inr isRequired \<Rightarrow>
          if propSchema = JNull then Inl TypeError
          else
            (let optional = (if \<not> isRequired \<or> truthy_opt (get_field propSchema ''nullable'')
                             then ''?'' else [])
             in
             case schemaToTypeScript propSchema g of
               Inl e \<Rightarrow> Inl e
             | Inr (tsType, g1) \<Rightarrow>
                 (case interface_members indentStr required ps g1 of
                    Inl e \<Rightarrow> Inl e
                  | Inr (rest, g2) \<Rightarrow>
                      Inr ((doc_line indentStr propSchema
                            @ member_line indentStr propName optional tsType) # rest, g2))))"

definition generateInterface ::
  "string \<Rightarrow> json \<Rightarrow> nat \<Rightarrow> generator \<Rightarrow> (string \<times> generator) result"
where
  "generateInterface nm s indent g =
     (case s of
        JObj fs \<Rightarrow>
          (let indentStr = concat (replicate indent ''  '') in
           if get_field s ''type'' = Some (JStr ''object'')
              \<and> truthy_opt (get_field s ''properties'')
           then
             (case interface_members indentStr (required_or_empty s)
                     (Object_entries (the (get_field s ''properties''))) g of
                Inl e \<Rightarrow> Inl e
              | Inr (blocks, g1) \<Rightarrow>
                  Inr (indentStr @ ''export interface '' @ nm @ '' {'' @ newline
                       @ concat blocks @ indentStr @ ''}'' @ newline, g1))
           else if get_field s ''type'' = Some (JStr ''array'')
                   \<and> truthy_opt (get_field s ''items'')
           then
             (case schemaToTypeScript (the (get_field s ''items'')) g of
                Inl e \<Rightarrow> Inl e
              | Inr (itemType, g1) \<Rightarrow>
                  Inr (indentStr @ ''export type '' @ nm @ '' = '' @ itemType @ ''[];''
                       @ newline, g1))
           else Inr ([], g))
      | _ \<Rightarrow> Inr ([], g))"

text \<open>\<^verbatim>\<open>propDesc.replace(/'/g, "\\'")\<close>, defined on strings only.\<close>

definition escape_quotes :: "string \<Rightarrow> string" where
  "escape_quotes d = concat (map (\<lambda>c. if c = CHR 0x27 then [CHR 0x5C, CHR 0x27] else [c]) d)"

text \<open>
  The \<^verbatim>\<open>.describe('...')\<close> suffix built from \<^verbatim>\<open>propSchema?.description\<close>: a truthy
  description that is not a string has no \<^verbatim>\<open>replace\<close> method.
\<close>

fun describe_call :: "json option \<Rightarrow> string result" where
  "describe_call None = Inr []"
| "describe_call (Some (JStr d)) =
     Inr (if d \<noteq> [] then ''.describe('' @ [CHR 0x27] @ escape_quotes d @ [CHR 0x27] @ '')''
          else [])"
| "describe_call (Some v) = (if truthy v then Inl TypeError else Inr [])"

fun zod_members ::
  "json \<Rightarrow> (string \<times> json) list \<Rightarrow> generator \<Rightarrow> (string list \<times> generator) result"
where
  "zod_members required [] g = Inr ([], g)"
| "zod_members required ((propName, propSchema) # ps) g =
     (case schemaToZodType propSchema g of
        Inl e \<Rightarrow> Inl e
      | Inr (zodType, g1) \<Rightarrow>
          (case array_includes required propName of
             Inl e \<Rightarrow> Inl e
           | Inr isRequired \<Rightarrow>
               (case describe_call (get_field propSchema ''description'') of
                  Inl e \<Rightarrow> Inl e
                | Inr describe \<Rightarrow>
                    (let optional = (if isRequired then [] else ''.optional()'');
                         line = ''  '' @ propName @ '': z.'' @ zodType @ optional @ describe
                                @ '',''
                     in
                     case zod_members required ps g1 of
                       Inl e \<Rightarrow> Inl e
                     | Inr (rest, g2) \<Rightarrow> Inr (line # rest, g2)))))"

definition generateZodSchema :: "string \<Rightarrow> json \<Rightarrow> generator \<Rightarrow> (string \<times> generator) result"
where
  "generateZodSchema nm s g =
     (case s of
        JObj fs \<Rightarrow>
          (if get_field s ''type'' = Some (JStr ''object'')
              \<and> truthy_opt (get_field s ''properties'')
           then
             (case zod_members (required_or_empty s)
                     (Object_entries (the (get_field s ''properties''))) g of
                Inl e \<Rightarrow> Inl e
              | Inr (props, g1) \<Rightarrow>
                  Inr (''export const '' @ nm @ ''Schema = z.object({'' @ newline
                       @ join newline props @ newline @ ''});'', g1))
           else if get_field s ''type'' = Some (JStr ''array'')
                   \<and> truthy_opt (get_field s ''items'')
           then
             (case schemaToZodType (the (get_field s ''items'')) g of
                Inl e \<Rightarrow> Inl e
              | Inr (itemType, g1) \<Rightarrow>
                  Inr (''export const '' @ nm @ ''Schema = z.array(z.'' @ itemType @ '');'', g1))
           else Inr ([], g))
      | _ \<Rightarrow> Inr ([], g))"

section \<open>Response deduplication and the declaration passes of \<^verbatim>\<open>generateTypeScriptFiles\<close>\<close>

text \<open>
  What the passes read of a tool: the parameters (type, \<^verbatim>\<open>enum\<close>, \<^verbatim>\<open>items\<close>) from
  which a schema is rebuilt for \<^verbatim>\<open>schemaToZodType\<close>, the response schema and the
  response type name derived from the operation.
\<close>

record tool_param =
  param_type :: string
  param_enum :: "json option"
  param_items :: "json option"

record tool =
  parameters :: "tool_param list"
  responseSchema :: "json option"
  responseTypeName :: string

definition param_schema :: "tool_param \<Rightarrow> json" where
  "param_schema p =
     JObj ([(''type'', JStr (param_type p))]
           @ (if truthy_opt (param_enum p) then [(''enum'', the (param_enum p))] else [])
           @ (if truthy_opt (param_items p) then [(''items'', the (param_items p))] else []))"

fun params_zod_types ::
  "tool_param list \<Rightarrow> generator \<Rightarrow> (string list \<times> generator) result"
where
  "params_zod_types [] g = Inr ([], g)"
| "params_zod_types (p # ps) g =
     (case schemaToZodType (param_schema p) g of
        Inl e \<Rightarrow> Inl e
      | Inr (zodType, g1) \<Rightarrow>
          (case params_zod_types ps g1 of
             Inl e \<Rightarrow> Inl e
           | Inr (rest, g2) \<Rightarrow> Inr (zodType # rest, g2)))"

fun tools_zod_types ::
  "tool list \<Rightarrow> generator \<Rightarrow> (string list list \<times> generator) result"
where
  "tools_zod_types [] g = Inr ([], g)"
| "tools_zod_types (t # ts) g =
     (case params_zod_types (parameters t) g of
        Inl e \<Rightarrow> Inl e
      | Inr (zs, g1) \<Rightarrow>
          (case tools_zod_types ts g1 of
             Inl e \<Rightarrow> Inl e
           | Inr (rest, g2) \<Rightarrow> Inr (zs # rest, g2)))"

text \<open>
  \<^verbatim>\<open>responseSchemaMap\<close>: fingerprint to the names of the operations that answer with
  this schema, in processing order, and the schema.
\<close>

type_synonym response_group = "string list \<times> json"

definition add_response ::
  "(string \<times> response_group) list \<Rightarrow> tool \<Rightarrow> (string \<times> response_group) list"
where
  "add_response m t =
     (if truthy_opt (responseSchema t) then
        (let schemaKey = JSON_stringify (the (responseSchema t)) in
         case map_get m schemaKey of
           Some (names, sch) \<Rightarrow> map_set m schemaKey (names @ [responseTypeName t], sch)
         | None \<Rightarrow> map_set m schemaKey ([responseTypeName t], the (responseSchema t)))
      else m)"

definition responseSchemaMap :: "tool list \<Rightarrow> (string \<times> response_group) list" where
  "responseSchemaMap tools = foldl add_response [] tools"

text \<open>The operations that fall into the group of a fingerprint.\<close>

definition same_response :: "string \<Rightarrow> tool \<Rightarrow> bool" where
  "same_response k t =
     (truthy_opt (responseSchema t) \<and> JSON_stringify (the (responseSchema t)) = k)"

definition alias_lines :: "string list \<Rightarrow> string \<Rightarrow> string list" where
  "alias_lines namesToAlias referenceName =
     map (\<lambda>alias. ''export type '' @ alias @ '' = '' @ referenceName @ '';'')
         (filter (\<lambda>nm. nm \<noteq> referenceName) namesToAlias)"

text \<open>
  One group of the resolver: the interface code and the alias lines, before they are
  joined. \<^verbatim>\<open>names[0]\<close> of an empty array would be \<^verbatim>\<open>undefined\<close>; a group always
  holds at least one name.
\<close>

definition response_group_code ::
  "response_group \<Rightarrow> generator \<Rightarrow> ((string \<times> string list) \<times> generator) result"
where
  "response_group_code grp g =
     (case grp of (names, sch) \<Rightarrow>
        (let schemaKey = JSON_stringify sch;
             componentName = lookup_truthy (componentSchemas g) schemaKey;
             canonicalName = (case componentName of
                                Some c \<Rightarrow> c
                              | None \<Rightarrow> (case names of [] \<Rightarrow> ''undefined'' | n # _ \<Rightarrow> n));
             alreadyExtracted = map_has (extractedSchemas g) schemaKey
         in
         case (if \<not> alreadyExtracted then generateInterface canonicalName sch 0 g
               else Inr ([], g)) of
           Inl e \<Rightarrow> Inl e
         | Inr (interfaceCode, g1) \<Rightarrow>
             (let extractedName = (if alreadyExtracted
                                   then map_option name (map_get (extractedSchemas g1) schemaKey)
                                   else None);
                  referenceName = (case extractedName of
                                     Some n \<Rightarrow> if n \<noteq> [] then n else canonicalName
                                   | None \<Rightarrow> canonicalName);
                  namesToAlias = (if alreadyExtracted then names
                                  else if componentName \<noteq> None then names else drop 1 names)
              in Inr ((interfaceCode, alias_lines namesToAlias referenceName), g1))))"

definition group_text :: "string \<times> string list \<Rightarrow> string" where
  "group_text c =
     join newline (filter (\<lambda>x. x \<noteq> []) [fst c, join newline (snd c)])"

fun response_groups ::
  "response_group list \<Rightarrow> generator \<Rightarrow> ((string \<times> string list) list \<times> generator) result"
where
  "response_groups [] g = Inr ([], g)"
| "response_groups (grp # grps) g =
     (case response_group_code grp g of
        Inl e \<Rightarrow> Inl e
      | Inr (c, g1) \<Rightarrow>
          (case response_groups grps g1 of
             Inl e \<Rightarrow> Inl e
           | Inr (rest, g2) \<Rightarrow> Inr (c # rest, g2)))"

definition responseInterfaces :: "tool list \<Rightarrow> generator \<Rightarrow> (string \<times> generator) result"
where
  "responseInterfaces tools g =
     (case response_groups (map_values (responseSchemaMap tools)) g of
        Inl e \<Rightarrow> Inl e
      | Inr (cs, g1) \<Rightarrow>
          Inr (join (newline @ newline) (filter (\<lambda>x. x \<noteq> []) (map group_text cs)), g1))"

text \<open>
  The two passes over \<^verbatim>\<open>Array.from(this.extractedSchemas.values())\<close>. The array is
  built before the first declaration is generated, so an entry registered while a
  declaration is generated is not part of the pass.
\<close>

fun interface_declarations ::
  "json extracted list \<Rightarrow> generator \<Rightarrow> (string list \<times> generator) result"
where
  "interface_declarations [] g = Inr ([], g)"
| "interface_declarations (e # es) g =
     (case generateInterface (name e) (schema e) 0 g of
        Inl err \<Rightarrow> Inl err
      | Inr (d, g1) \<Rightarrow>
          (case interface_declarations es g1 of
             Inl err \<Rightarrow> Inl err
           | Inr (rest, g2) \<Rightarrow> Inr (d # rest, g2)))"

fun zod_declarations ::
  "json extracted list \<Rightarrow> generator \<Rightarrow> (string list \<times> generator) result"
where
  "zod_declarations [] g = Inr ([], g)"
| "zod_declarations (e # es) g =
     (case generateZodSchema (name e) (schema e) g of
        Inl err \<Rightarrow> Inl err
      | Inr (d, g1) \<Rightarrow>
          (case zod_declarations es g1 of
             Inl err \<Rightarrow> Inl err
           | Inr (rest, g2) \<Rightarrow> Inr (d # rest, g2)))"

definition nestedInterfaces :: "generator \<Rightarrow> (string \<times> generator) result" where
  "nestedInterfaces g =
     (case interface_declarations (map_values (extractedSchemas g)) g of
        Inl e \<Rightarrow> Inl e
      | Inr (ds, g1) \<Rightarrow> Inr (join newline (filter (\<lambda>x. x \<noteq> []) ds), g1))"

definition nestedZodSchemas :: "generator \<Rightarrow> (string \<times> generator) result" where
  "nestedZodSchemas g =
     (case zod_declarations (map_values (extractedSchemas g)) g of
        Inl e \<Rightarrow> Inl e
      | Inr (ds, g1) \<Rightarrow> Inr (join (newline @ newline) (filter (\<lambda>x. x \<noteq> []) ds), g1))"

text \<open>
  The part of \<^verbatim>\<open>generateTypeScriptFiles\<close> that fills the template data: parameter
  validators, response interfaces, nested interfaces, nested validators, in this order.
\<close>

record template_data =
  zodTypes :: "string list list"
  allInterfaces :: string
  nestedZod :: string

definition generateTypeScriptFiles ::
  "tool list \<Rightarrow> generator \<Rightarrow> (template_data \<times> generator) result"
where
  "generateTypeScriptFiles tools g =
     (case tools_zod_types tools g of
        Inl e \<Rightarrow> Inl e
      | Inr (zs, g1) \<Rightarrow>
     (case responseInterfaces tools g1 of
        Inl e \<Rightarrow> Inl e
      | Inr (ri, g2) \<Rightarrow>
     (case nestedInterfaces g2 of
        Inl e \<Rightarrow> Inl e
      | Inr (ni, g3) \<Rightarrow>
     (case nestedZodSchemas g3 of
        Inl e \<Rightarrow> Inl e
      | Inr (nz, g4) \<Rightarrow>
          Inr (\<lparr>zodTypes = zs,
                allInterfaces = join (newline @ newline) (filter (\<lambda>x. x \<noteq> []) [ni, ri]),
                nestedZod = nz\<rparr>, g4)))))"

text \<open>
  \<^verbatim>\<open>generate\<close>: the state is reset, and whatever is thrown inside the \<^verbatim>\<open>try\<close> block
  is caught and thrown again as a \<^verbatim>\<open>GenerationError\<close>.
\<close>

definition rethrow :: "'a result \<Rightarrow> 'a result" where
  "rethrow r = (case r of Inl e \<Rightarrow> Inl GenerationError | Inr x \<Rightarrow> Inr x)"

definition generate :: "(string \<rightharpoonup> string) \<Rightarrow> tool list \<Rightarrow> template_data result" where
  "generate comps tools =
     rethrow (case generateTypeScriptFiles tools (reset comps) of
                Inl e \<Rightarrow> Inl e
              | Inr (files, g) \<Rightarrow> Inr files)"

section \<open>The parser's component name index\<close>

text \<open>
  \<^verbatim>\<open>extractComponentNames\<close>: every entry of \<^verbatim>\<open>components.schemas\<close> that is an object
  is recorded under its \<^verbatim>\<open>JSON.stringify\<close>; a later entry with the same key replaces
  an earlier one. The \<^verbatim>\<open>in\<close> operator raises a \<^verbatim>\<open>TypeError\<close> on a primitive
  operand, \<^verbatim>\<open>Object.entries\<close> on \<^verbatim>\<open>null\<close>. On a tree \<^verbatim>\<open>JSON.stringify\<close> cannot
  throw, so the \<^verbatim>\<open>catch\<close> branch of the loop is never taken here.
\<close>

fun is_object :: "json \<Rightarrow> bool" where
  "is_object (JObj kvs) = True"
| "is_object (JArr xs) = True"
| "is_object _ = False"

definition add_component :: "(string \<rightharpoonup> string) \<Rightarrow> string \<times> json \<Rightarrow> (string \<rightharpoonup> string)"
where
  "add_component componentMap entry =
     (case entry of (nm, sch) \<Rightarrow>
        if truthy sch \<and> is_object sch then componentMap(JSON_stringify sch \<mapsto> nm)
        else componentMap)"

definition extractComponentNames :: "json \<Rightarrow> (string \<rightharpoonup> string) result" where
  "extractComponentNames api =
     (if \<not> is_object api then Inl TypeError
      else case get_field api ''components'' of
        None \<Rightarrow> Inr Map.empty
      | Some components \<Rightarrow>
          if \<not> truthy components then Inr Map.empty
          else if \<not> is_object components then Inl TypeError
          else (case get_field components ''schemas'' of
                  None \<Rightarrow> Inr Map.empty
                | Some schemas \<Rightarrow>
                    if schemas = JNull then Inl TypeError
                    else Inr (foldl add_component Map.empty (Object_entries schemas))))"

section \<open>Schemas with cycles\<close>

text \<open>
  A dereferenced document can contain an object that is reachable from itself. Such
  an input is an object graph: \<open>GRef a\<close> points to the object stored at address \<open>a\<close>
  of the heap (an address outside the heap stands for no object and prints as
  \<^verbatim>\<open>null\<close>). \<^verbatim>\<open>JSON.stringify\<close> keeps the stack of the objects it is inside of and
  raises a \<^verbatim>\<open>TypeError\<close> when it meets one of them again.
\<close>

datatype gjson = GNull | GBool bool | GNum number | GStr string
  | GArr "gjson list" | GObj "(string \<times> gjson) list" | GRef nat

type_synonym heap = "gjson list"

function (sequential) JSON_stringify_g :: "heap \<Rightarrow> nat list \<Rightarrow> gjson \<Rightarrow> string result"
  and stringify_g_elements :: "heap \<Rightarrow> nat list \<Rightarrow> gjson list \<Rightarrow> string result"
  and stringify_g_members :: "heap \<Rightarrow> nat list \<Rightarrow> (string \<times> gjson) list \<Rightarrow> string result"
where
  "JSON_stringify_g h stack GNull = Inr ''null''"
| "JSON_stringify_g h stack (GBool b) = Inr (if b then ''true'' else ''false'')"
| "JSON_stringify_g h stack (GNum x) =
     Inr (if Number_isFinite x then Number_toString x else ''null'')"
| "JSON_stringify_g h stack (GStr s) = Inr (quote s)"
| "JSON_stringify_g h stack (GArr xs) =
     (case stringify_g_elements h stack xs of
        Inl e \<Rightarrow> Inl e
      | Inr body \<Rightarrow> Inr (''['' @ body @ '']''))"
| "JSON_stringify_g h stack (GObj kvs) =
     (case stringify_g_members h stack kvs of
        Inl e \<Rightarrow> Inl e
      | Inr body \<Rightarrow> Inr (''{'' @ body @ ''}''))"
| "JSON_stringify_g h stack (GRef a) =
     (if a \<in> set stack then Inl TypeError
      else if a < length h then JSON_stringify_g h (a # stack) (h ! a)
      else Inr ''null'')"
| "stringify_g_elements h stack [] = Inr []"
| "stringify_g_elements h stack [x] = JSON_stringify_g h stack x"
| "stringify_g_elements h stack (x # y # ys) =
     (case JSON_stringify_g h stack x of
        Inl e \<Rightarrow> Inl e
      | Inr a \<Rightarrow>
          (case stringify_g_elements h stack (y # ys) of
             Inl e \<Rightarrow> Inl e
           | Inr b \<Rightarrow> Inr (a @ '','' @ b)))"
| "stringify_g_members h stack [] = Inr []"
| "stringify_g_members h stack [(k, v)] =
     (case JSON_stringify_g h stack v of
        Inl e \<Rightarrow> Inl e
      | Inr a \<Rightarrow> Inr (quote k @ '':'' @ a))"
| "stringify_g_members h stack ((k, v) # m # ms) =
     (case JSON_stringify_g h stack v of
        Inl e \<Rightarrow> Inl e
      | Inr a \<Rightarrow>
          (case stringify_g_members h stack (m # ms) of
             Inl e \<Rightarrow> Inl e
           | Inr b \<Rightarrow> Inr (quote k @ '':'' @ a @ '','' @ b)))"
  by pat_completeness auto

termination JSON_stringify_g
proof -
  have card_less: "a \<notin> set stack \<Longrightarrow> a < length h \<Longrightarrow>
      card ({..<length h} - set (a # stack)) < card ({..<length h} - set stack)"
    for a :: nat and stack and h :: heap
    by (rule psubset_card_mono) auto
  show ?thesis
  proof (relation "inv_image (less_than <*lex*> less_than)
          (\<lambda>x. case x of
                  Inl (h, stack, v) \<Rightarrow> (card ({..<length h} - set stack), size v)
                | Inr (Inl (h, stack, vs)) \<Rightarrow>
                    (card ({..<length h} - set stack), size_list size vs)
                | Inr (Inr (h, stack, kvs)) \<Rightarrow>
                    (card ({..<length h} - set stack),
                     size_list (size_prod (\<lambda>x. 0) size) kvs))",
         goal_cases)
    case 1
    then show ?case by (intro wf_inv_image wf_lex_prod wf_less_than)
  next
    case (4 h stack a)
    then show ?case using card_less [of a stack h] by simp
  qed simp_all
qed

text \<open>
  \<^verbatim>\<open>extractNestedSchema\<close> on an object graph: the key is computed without a
  \<^verbatim>\<open>try\<close>, so the error of \<^verbatim>\<open>JSON.stringify\<close> leaves the function.
\<close>

definition extractNestedSchema_g ::
  "heap \<Rightarrow> gjson \<Rightarrow> gjson generator_state \<Rightarrow> (string \<times> gjson generator_state) result"
where
  "extractNestedSchema_g h s g =
     (case JSON_stringify_g h [] s of
        Inl e \<Rightarrow> Inl e
      | Inr schemaKey \<Rightarrow> Inr (register_schema schemaKey s g))"

section \<open>States of one run\<close>

text \<open>
  After the reset, the state changes only inside \<^verbatim>\<open>extractNestedSchema\<close>, and every
  caller guards the call by the extraction policy on an object schema with properties.
  \<open>steps g g'\<close> says that \<open>g'\<close> is reached from \<open>g\<close> by such registrations.
\<close>

definition hoistable :: "json \<Rightarrow> bool" where
  "hoistable s =
     (get_field s ''type'' = Some (JStr ''object'')
      \<and> truthy_opt (get_field s ''properties'')
      \<and> shouldExtractNestedSchema s)"

inductive steps :: "generator \<Rightarrow> generator \<Rightarrow> bool" where
  steps_refl: "steps g g"
| steps_register: "steps g g1 \<Longrightarrow> hoistable s \<Longrightarrow> steps g (snd (extractNestedSchema s g1))"

text \<open>
  Properties of the table: an entry whose key is in the component name index carries
  the component name; the entries without a component name, in insertion order; every
  entry is stored under the fingerprint of its own schema, which passed the policy.
\<close>

definition component_named :: "generator \<Rightarrow> bool" where
  "component_named g =
     list_all (\<lambda>(k, e). case lookup_truthy (componentSchemas g) k of
                           Some c \<Rightarrow> name e = c
                         | None \<Rightarrow> True)
       (extractedSchemas g)"

definition fallback_names :: "generator \<Rightarrow> string list" where
  "fallback_names g =
     map (\<lambda>(k, e). name e)
       (filter (\<lambda>(k, e). lookup_truthy (componentSchemas g) k = None) (extractedSchemas g))"

definition self_keyed :: "generator \<Rightarrow> bool" where
  "self_keyed g =
     list_all (\<lambda>(k, e). k = JSON_stringify (schema e) \<and> hoistable (schema e))
       (extractedSchemas g)"

section \<open>Example inputs\<close>

definition string_schema :: json where
  "string_schema = JObj [(''type'', JStr ''string'')]"

definition number_schema :: json where
  "number_schema = JObj [(''type'', JStr ''number'')]"

definition object_schema :: "(string \<times> json) list \<Rightarrow> json" where
  "object_schema ps = JObj [(''type'', JStr ''object''), (''properties'', JObj ps)]"

definition owner_props :: "(string \<times> json) list" where
  "owner_props = [(''login'', string_schema), (''id'', number_schema), (''type'', string_schema)]"

definition owner_props_reordered :: "(string \<times> json) list" where
  "owner_props_reordered =
     [(''id'', number_schema), (''login'', string_schema), (''type'', string_schema)]"

text \<open>Three properties, two of them named by array indices, inserted in two orders.\<close>

definition mixed_props :: "(string \<times> json) list" where
  "mixed_props = [(''b'', string_schema), (''2'', number_schema), (''1'', number_schema)]"

definition mixed_props_reordered :: "(string \<times> json) list" where
  "mixed_props_reordered =
     [(''1'', number_schema), (''2'', number_schema), (''b'', string_schema)]"

definition owner_schema :: json where
  "owner_schema = object_schema owner_props"

definition owner_schema_reordered :: json where
  "owner_schema_reordered = object_schema owner_props_reordered"

definition point_schema :: json where
  "point_schema =
     object_schema [(''x'', number_schema), (''y'', number_schema), (''z'', number_schema)]"

definition pair_schema :: json where
  "pair_schema = object_schema [(''x'', number_schema), (''y'', number_schema)]"

definition empty_enum_schema :: json where
  "empty_enum_schema = JObj [(''type'', JStr ''string''), (''enum'', JArr [])]"

definition nullable_empty_enum_schema :: json where
  "nullable_empty_enum_schema = JObj [(''enum'', JArr []), (''nullable'', JBool True)]"

definition account_schema :: json where
  "account_schema =
     JObj [(''type'', JStr ''object''),
           (''properties'',
              JObj [(''id'', number_schema),
                    (''nick'', JObj [(''type'', JStr ''string''), (''nullable'', JBool True)]),
                    (''note'', string_schema)]),
           (''required'', JArr [JStr ''id'', JStr ''nick''])]"

definition api_document :: json where
  "api_document =
     JObj [(''openapi'', JStr ''3.0.0''),
           (''components'', JObj [(''schemas'', JObj [(''Owner'', owner_schema)])])]"

definition no_components :: "string \<rightharpoonup> string" where
  "no_components = Map.empty"

definition pair_components :: "string \<rightharpoonup> string" where
  "pair_components = [JSON_stringify pair_schema \<mapsto> ''Pair'']"

definition owner_components :: "string \<rightharpoonup> string" where
  "owner_components = [JSON_stringify owner_schema \<mapsto> ''Owner'']"

definition clash_components :: "string \<rightharpoonup> string" where
  "clash_components = [JSON_stringify owner_schema \<mapsto> ''NestedType1'']"

definition start :: generator where
  "start = reset no_components"

definition pair_start :: generator where
  "pair_start = reset pair_components"

definition owner_start :: generator where
  "owner_start = reset owner_components"

definition clash_start :: generator where
  "clash_start = reset clash_components"

definition two_registered :: generator where
  "two_registered =
     snd (extractNestedSchema point_schema (snd (extractNestedSchema owner_schema start)))"

definition clash_registered :: generator where
  "clash_registered =
     snd (extractNestedSchema owner_schema (snd (extractNestedSchema point_schema clash_start)))"

definition get_tool :: tool where
  "get_tool =
     \<lparr>parameters = [], responseSchema = Some owner_schema, responseTypeName = ''GetResponse''\<rparr>"

definition list_tool :: tool where
  "list_tool =
     \<lparr>parameters = [], responseSchema = Some owner_schema, responseTypeName = ''ListResponse''\<rparr>"

text \<open>An object with three properties, one of which is the object itself.\<close>

definition cyclic_heap :: heap where
  "cyclic_heap =
     [GObj [(''type'', GStr ''object''),
            (''properties'',
               GObj [(''id'', GObj [(''type'', GStr ''number'')]),
                     (''name'', GObj [(''type'', GStr ''string'')]),
                     (''parent'', GRef 0)])]]"

text \<open>Texts the generator produces for the examples.\<close>

definition owner_interface :: "string \<Rightarrow> string" where
  "owner_interface nm =
     ''export interface '' @ nm @ '' {'' @ newline
     @ ''  login?: string;'' @ newline
     @ ''  id?: number;'' @ newline
     @ ''  type?: string;'' @ newline
     @ ''}'' @ newline"

definition point_interface :: "string \<Rightarrow> string" where
  "point_interface nm =
     ''export interface '' @ nm @ '' {'' @ newline
     @ ''  x?: number;'' @ newline
     @ ''  y?: number;'' @ newline
     @ ''  z?: number;'' @ newline
     @ ''}'' @ newline"

definition owner_validator :: "string \<Rightarrow> string" where
  "owner_validator nm =
     ''export const '' @ nm @ ''Schema = z.object({'' @ newline
     @ ''  login: z.string().optional(),'' @ newline
     @ ''  id: z.number().optional(),'' @ newline
     @ ''  type: z.string().optional(),'' @ newline
     @ ''});''"

definition point_validator :: "string \<Rightarrow> string" where
  "point_validator nm =
     ''export const '' @ nm @ ''Schema = z.object({'' @ newline
     @ ''  x: z.number().optional(),'' @ newline
     @ ''  y: z.number().optional(),'' @ newline
     @ ''  z: z.number().optional(),'' @ newline
     @ ''});''"

definition account_interface :: string where
  "account_interface =
     ''export interface Account {'' @ newline
     @ ''  id: number;'' @ newline
     @ ''  nick?: string | null;'' @ newline
     @ ''  note?: string;'' @ newline
     @ ''}'' @ newline"


text \<open>
  The state after the owner schema has been registered without a component name, and
  a tool with two array parameters whose items are the point and the owner schema.
\<close>

definition owner_registered :: generator where
  "owner_registered = snd (extractNestedSchema owner_schema start)"

definition clash_tool :: tool where
  "clash_tool =
     \<lparr>parameters =
        [\<lparr>param_type = ''array'', param_enum = None, param_items = Some point_schema\<rparr>,
         \<lparr>param_type = ''array'', param_enum = None, param_items = Some owner_schema\<rparr>],
      responseSchema = None, responseTypeName = []\<rparr>"


section \<open>Facts about the map operations and evaluation\<close>

lemmas example_defs = string_schema_def number_schema_def object_schema_def owner_props_def
  mixed_props_def mixed_props_reordered_def
  owner_props_reordered_def owner_schema_def owner_schema_reordered_def point_schema_def
  pair_schema_def empty_enum_schema_def nullable_empty_enum_schema_def account_schema_def
  api_document_def no_components_def pair_components_def owner_components_def
  clash_components_def start_def pair_start_def owner_start_def clash_start_def
  two_registered_def clash_registered_def get_tool_def list_tool_def cyclic_heap_def reset_def

lemmas stringify_eval = quote_def escape_char_def show_nat.simps hexdigit_def

text \<open>
  Numbers as \<^verbatim>\<open>JSON.stringify\<close> and a template literal print them: a magnitude of
  \<open>10 ^ 21\<close> or more takes an exponent, a fraction keeps its digits.
\<close>

lemma number_examples:
  "JSON_stringify (JNum (Finite (10 ^ 21))) = ''1e+21''"
  "js_string (JNum (Finite (1 / 2))) = ''0.5''"
  by code_simp+

lemma map_of_map_set: "map_of (map_set m k v) = (map_of m)(k \<mapsto> v)"
  by (induction m) (auto simp: fun_eq_iff)

lemma map_set_fresh: "map_of m k = None \<Longrightarrow> map_set m k v = m @ [(k, v)]"
  by (induction m) (auto split: if_splits)

lemma count_key_distinct:
  "distinct (map fst m) \<Longrightarrow> map_of m k = Some v \<Longrightarrow> length (filter (\<lambda>e. fst e = k) m) = 1"
proof (induction m)
  case Nil
  then show ?case by simp
next
  case (Cons a m)
  show ?case
  proof (cases "fst a = k")
    case True
    then have "filter (\<lambda>e. fst e = k) m = []"
      using Cons.prems(1) by (cases a) (force simp: filter_empty_conv)
    with True show ?thesis by simp
  next
    case False
    with Cons show ?thesis by (cases a) auto
  qed
qed

section \<open>Registration\<close>

text \<open>The three branches of \<^verbatim>\<open>extractNestedSchema\<close>, with the map operations resolved.\<close>

lemma register_schema_cases:
  "register_schema k s g =
    (case lookup_truthy (componentSchemas g) k of
       Some c \<Rightarrow>
         (c, if map_of (extractedSchemas g) k = None
             then g\<lparr>extractedSchemas := extractedSchemas g @ [(k, \<lparr>schema = s, name = c\<rparr>)]\<rparr>
             else g)
     | None \<Rightarrow>
         (case map_of (extractedSchemas g) k of
            Some e \<Rightarrow> (name e, g)
          | None \<Rightarrow>
              (''NestedType'' @ show_nat (Suc (schemaCounter g)),
               g\<lparr>schemaCounter := Suc (schemaCounter g),
                 extractedSchemas := extractedSchemas g
                   @ [(k, \<lparr>schema = s,
                           name = ''NestedType'' @ show_nat (Suc (schemaCounter g))\<rparr>)]\<rparr>)))"
  by (auto simp: register_schema_def map_has_def map_get_def map_set_fresh Let_def
           split: option.splits)

lemma register_schema_registered:
  "register_schema k s g = (n, g') \<Longrightarrow> \<exists>e. map_of (extractedSchemas g') k = Some e"
  by (auto simp: register_schema_cases map_add_def split: option.splits if_splits)

lemma register_schema_again:
  "register_schema k s g = (n, g') \<Longrightarrow> register_schema k s' g' = (n, g')"
  by (auto simp: register_schema_cases map_add_def split: option.splits if_splits)

lemma register_schema_distinct:
  "register_schema k s g = (n, g') \<Longrightarrow> distinct (map fst (extractedSchemas g))
    \<Longrightarrow> distinct (map fst (extractedSchemas g'))"
  by (auto simp: register_schema_cases map_of_eq_None_iff split: option.splits if_splits)

text \<open>
  C2. Registration is idempotent per fingerprint: when two schemas have the same
  fingerprint, \<^verbatim>\<open>extractNestedSchema\<close> returns for the second the name it returned for
  the first, the second call leaves the generator state as it is, and the table holds
  exactly one entry under that fingerprint. The function takes no preferred name; the
  second schema is not stored.
\<close>

theorem extractNestedSchema_idempotent:
  assumes "JSON_stringify s1 = JSON_stringify s2"
    and "distinct (map fst (extractedSchemas g))"
    and "extractNestedSchema s1 g = (n1, g1)"
    and "extractNestedSchema s2 g1 = (n2, g2)"
  shows "n2 = n1 \<and> g2 = g1
     \<and> length (filter (\<lambda>e. fst e = JSON_stringify s1) (extractedSchemas g2)) = 1"
proof -
  from assms(3) have r1: "register_schema (JSON_stringify s1) s1 g = (n1, g1)"
    by (simp add: extractNestedSchema_def)
  from assms(4) assms(1) have r2: "register_schema (JSON_stringify s1) s2 g1 = (n2, g2)"
    by (simp add: extractNestedSchema_def)
  from register_schema_again [OF r1, of s2] r2 have eq: "n2 = n1" "g2 = g1" by simp_all
  from register_schema_registered [OF r1] obtain e where
    e: "map_of (extractedSchemas g1) (JSON_stringify s1) = Some e" by blast
  have d: "distinct (map fst (extractedSchemas g1))"
    using register_schema_distinct [OF r1 assms(2)] .
  show ?thesis using eq count_key_distinct [OF d e] by simp
qed

theorem extractNestedSchema_idempotent_witness:
  "JSON_stringify owner_schema = JSON_stringify owner_schema
   \<and> distinct (map fst (extractedSchemas start))
   \<and> fst (extractNestedSchema owner_schema start) = ''NestedType1''
   \<and> fst (extractNestedSchema owner_schema (snd (extractNestedSchema owner_schema start)))
       = ''NestedType1''
   \<and> snd (extractNestedSchema owner_schema (snd (extractNestedSchema owner_schema start)))
       = snd (extractNestedSchema owner_schema start)
   \<and> length (filter (\<lambda>e. fst e = JSON_stringify owner_schema)
        (extractedSchemas
          (snd (extractNestedSchema owner_schema (snd (extractNestedSchema owner_schema start))))))
       = 1"
proof -
  have d: "distinct (map fst (extractedSchemas start))"
    by (simp add: example_defs)
  have n: "fst (extractNestedSchema owner_schema start) = ''NestedType1''"
    by (simp add: example_defs extractNestedSchema_def register_schema_cases lookup_truthy_def
        show_nat.simps hexdigit_def)
  have c1: "extractNestedSchema owner_schema start
      = (fst (extractNestedSchema owner_schema start),
         snd (extractNestedSchema owner_schema start))"
    by simp
  have c2: "extractNestedSchema owner_schema (snd (extractNestedSchema owner_schema start))
      = (fst (extractNestedSchema owner_schema (snd (extractNestedSchema owner_schema start))),
         snd (extractNestedSchema owner_schema (snd (extractNestedSchema owner_schema start))))"
    by simp
  show ?thesis
    using d n extractNestedSchema_idempotent [OF refl d c1 c2] by auto
qed

section \<open>Extraction policy\<close>




section \<open>Decimal numerals\<close>

lemma of_char_hexdigit: "d < 10 \<Longrightarrow> of_char (hexdigit d) = (48 + d :: nat)"
proof -
  assume "d < 10"
  then have "d \<in> {0, 1, 2, 3, 4, 5, 6, 7, 8, 9}" by auto
  then show ?thesis by (auto simp: hexdigit_def)
qed

lemma show_nat_value:
  "foldl (\<lambda>a c. 10 * a + (of_char c - 48)) 0 (show_nat n) = n"
proof (induction n rule: show_nat.induct)
  case (1 n)
  show ?case
  proof (cases "n < 10")
    case True
    then show ?thesis by (simp add: show_nat.simps [of n] of_char_hexdigit)
  next
    case False
    then show ?thesis
      using "1.IH" by (simp add: show_nat.simps [of n] of_char_hexdigit)
  qed
qed

lemma show_nat_inj:
  assumes "show_nat n = show_nat m"
  shows "n = m"
proof -
  have "n = foldl (\<lambda>a c. 10 * a + (of_char c - 48)) 0 (show_nat n)"
    by (simp only: show_nat_value)
  also have "\<dots> = foldl (\<lambda>a c. 10 * a + (of_char c - 48)) 0 (show_nat m)"
    by (simp only: assms)
  also have "\<dots> = m"
    by (simp only: show_nat_value)
  finally show ?thesis .
qed

section \<open>Invariants of a run\<close>

lemma steps_trans: "steps b c \<Longrightarrow> steps a b \<Longrightarrow> steps a c"
  by (induction rule: steps.induct) (auto intro: steps.intros)

lemma steps_components: "steps g g' \<Longrightarrow> componentSchemas g' = componentSchemas g"
  by (induction rule: steps.induct)
     (auto simp: extractNestedSchema_def register_schema_cases split: option.splits)

lemma steps_prefix: "steps g g' \<Longrightarrow> \<exists>ext. extractedSchemas g' = extractedSchemas g @ ext"
  by (induction rule: steps.induct)
     (auto simp: extractNestedSchema_def register_schema_cases split: option.splits)

lemma steps_distinct:
  "steps g g' \<Longrightarrow> distinct (map fst (extractedSchemas g)) \<Longrightarrow> distinct (map fst (extractedSchemas g'))"
  by (induction rule: steps.induct)
     (auto simp: extractNestedSchema_def register_schema_cases map_of_eq_None_iff split: option.splits)

lemma steps_component_named:
  "steps g g' \<Longrightarrow> component_named g \<Longrightarrow> component_named g'"
proof (induction rule: steps.induct)
  case (steps_refl g)
  then show ?case by simp
next
  case (steps_register g g1 s)
  then have "component_named g1" by simp
  then show ?case
    by (auto simp: component_named_def extractNestedSchema_def register_schema_cases
        split: option.splits)
qed

lemma steps_self_keyed:
  "steps g g' \<Longrightarrow> self_keyed g \<Longrightarrow> self_keyed g'"
proof (induction rule: steps.induct)
  case (steps_refl g)
  then show ?case by simp
next
  case (steps_register g g1 s)
  then have "self_keyed g1" by simp
  with steps_register.hyps(2) show ?case
    by (auto simp: self_keyed_def extractNestedSchema_def register_schema_cases
        split: option.splits)
qed

lemma steps_fallback_names:
  "steps g g' \<Longrightarrow>
   fallback_names g = map (\<lambda>i. ''NestedType'' @ show_nat i) [1..<Suc (schemaCounter g)] \<Longrightarrow>
   fallback_names g' = map (\<lambda>i. ''NestedType'' @ show_nat i) [1..<Suc (schemaCounter g')]"
proof (induction rule: steps.induct)
  case (steps_refl g)
  then show ?case by simp
next
  case (steps_register g g1 s)
  then have "fallback_names g1 = map (\<lambda>i. ''NestedType'' @ show_nat i) [1..<Suc (schemaCounter g1)]"
    by simp
  then show ?case
    by (auto simp: fallback_names_def extractNestedSchema_def register_schema_cases
        split: option.splits)
qed

lemma steps_extract: "hoistable s \<Longrightarrow> extractNestedSchema s g = (n, g') \<Longrightarrow> steps g g'"
  using steps_register [OF steps_refl, of s g] by simp

lemma schemaToTypeScript_steps:
  "schemaToTypeScript s g = Inr (t, g') \<Longrightarrow> steps g g'"
  "inlineProps ps g = Inr (ts, g') \<Longrightarrow> steps g g'"
proof (induction s g and ps g arbitrary: t g' and ts g' rule: schemaToTypeScript_inlineProps.induct)
  case (1 fs g)
  show ?case
  proof (cases "truthy_opt (get_field (JObj fs) ''enum'')")
    case True
    with "1.prems" show ?thesis by (auto simp: Let_def split: sum.splits intro: steps_refl)
  next
    case False
    note noenum = False
    consider (arr) "get_field (JObj fs) ''type'' = Some (JStr ''array'')"
      | (obj) "get_field (JObj fs) ''type'' = Some (JStr ''object'')"
      | (other) "get_field (JObj fs) ''type'' \<noteq> Some (JStr ''array'')" 
           "get_field (JObj fs) ''type'' \<noteq> Some (JStr ''object'')"
      by blast
    then show ?thesis
    proof cases
      case arr
      show ?thesis
      proof (cases "truthy_opt (get_field (JObj fs) ''items'')")
        case True
        with "1.prems" noenum arr obtain it g1 where
          "schemaToTypeScript (the (get_field (JObj fs) ''items'')) g = Inr (it, g1)" "g' = g1"
          by (auto simp: Let_def split: sum.splits if_splits)
        with "1.IH"(1) [OF refl refl noenum _ _ _ arr True] show ?thesis
          using arr by auto
      next
        case False
        with "1.prems" noenum arr show ?thesis
          by (auto simp: Let_def split: sum.splits if_splits intro: steps_refl)
      qed
    next
      case obj
      show ?thesis
      proof (cases "truthy_opt (get_field (JObj fs) ''properties'')")
        case False
        with "1.prems" noenum obj show ?thesis
          by (auto simp: Let_def split: sum.splits if_splits intro: steps_refl)
      next
        case props: True
        show ?thesis
        proof (cases "shouldExtractNestedSchema (JObj fs)")
          case True
          then have "hoistable (JObj fs)" using obj props by (simp add: hoistable_def)
          moreover from "1.prems" noenum obj props True
          have "g' = snd (extractNestedSchema (JObj fs) g)"
            by (auto simp: Let_def split: prod.splits)
          ultimately show ?thesis using steps_register [OF steps_refl] by simp
        next
          case False
          with "1.prems" noenum obj props obtain props' where
            "inlineProps (Object_entries (the (get_field (JObj fs) ''properties''))) g
               = Inr (props', g')"
            by (auto simp: Let_def split: sum.splits)
          with "1.IH"(2) [OF refl refl noenum _ _ _ _ obj props False] show ?thesis
            using obj by auto
        qed
      qed
    next
      case other
      with "1.prems" noenum show ?thesis
        by (auto simp: Let_def split: sum.splits if_splits intro: steps_refl)
    qed
  qed
next
  case (4 nm propSchema ps g)
  from "4.prems" obtain pt g1 rest where
    a: "schemaToTypeScript propSchema g = Inr (pt, g1)" and
    b: "inlineProps ps g1 = Inr (rest, g')"
    by (auto split: sum.splits)
  from "4.IH"(1) [OF a] "4.IH"(2) [OF a refl b] show ?case
    by (blast intro: steps_trans)
qed (auto intro: steps_refl)


lemma schemaToZodType_steps: "schemaToZodType s g = Inr (z, g') \<Longrightarrow> steps g g'"
proof (induction s g arbitrary: z g' rule: schemaToZodType.induct)
  case (1 fs g)
  show ?case
  proof (cases "truthy_opt (get_field (JObj fs) ''enum'')")
    case True
    with "1.prems" show ?thesis by (auto simp: Let_def split: sum.splits intro: steps_refl)
  next
    case noenum: False
    consider (arr) "get_field (JObj fs) ''type'' = Some (JStr ''array'')"
      | (obj) "get_field (JObj fs) ''type'' = Some (JStr ''object'')"
      | (other) "get_field (JObj fs) ''type'' \<noteq> Some (JStr ''array'')"
           "get_field (JObj fs) ''type'' \<noteq> Some (JStr ''object'')"
      by blast
    then show ?thesis
    proof cases
      case arr
      show ?thesis
      proof (cases "truthy_opt (get_field (JObj fs) ''items'')")
        case False
        with "1.prems" noenum arr show ?thesis
          by (auto simp: Let_def split: sum.splits if_splits intro: steps_refl)
      next
        case items: True
        let ?it = "the (get_field (JObj fs) ''items'')"
        show ?thesis
        proof (cases "hoistable ?it")
          case True
          with "1.prems" noenum arr items
          have "g' = snd (extractNestedSchema ?it g)"
            by (auto simp: Let_def hoistable_def split: prod.splits)
          with True show ?thesis using steps_register [OF steps_refl] by simp
        next
          case False
          with "1.prems" noenum arr items obtain it where
            "schemaToZodType ?it g = Inr (it, g')"
            by (auto simp: Let_def hoistable_def split: sum.splits)
          with "1.IH" [OF refl refl noenum _ _ _ arr items refl] False show ?thesis
            using arr by (auto simp: hoistable_def)
        qed
      qed
    next
      case obj
      show ?thesis
      proof (cases "hoistable (JObj fs)")
        case True
        with "1.prems" noenum obj
        have "g' = snd (extractNestedSchema (JObj fs) g)"
          by (auto simp: Let_def hoistable_def split: prod.splits)
        with True show ?thesis using steps_register [OF steps_refl] by simp
      next
        case False
        with "1.prems" noenum obj show ?thesis
          by (auto simp: Let_def hoistable_def split: if_splits intro: steps_refl)
      qed
    next
      case other
      with "1.prems" noenum show ?thesis
        by (auto simp: Let_def split: sum.splits if_splits intro: steps_refl)
    qed
  qed
qed (auto intro: steps_refl)

lemma interface_members_steps:
  "interface_members ind req ps g = Inr (bs, g') \<Longrightarrow> steps g g'"
proof (induction ps arbitrary: g bs)
  case Nil
  then show ?case by (auto intro: steps_refl)
next
  case (Cons p ps)
  obtain pn psch where p: "p = (pn, psch)" by (cases p)
  from Cons.prems p obtain t g1 rest where
    a: "schemaToTypeScript psch g = Inr (t, g1)" and
    b: "interface_members ind req ps g1 = Inr (rest, g')"
    by (auto simp: Let_def split: sum.splits if_splits)
  from schemaToTypeScript_steps(1) [OF a] Cons.IH [OF b] show ?case
    by (blast intro: steps_trans)
qed

lemma generateInterface_steps:
  "generateInterface nm s indent g = Inr (code, g') \<Longrightarrow> steps g g'"
  by (auto simp: generateInterface_def Let_def split: json.splits sum.splits if_splits
      intro: steps_refl interface_members_steps schemaToTypeScript_steps(1))

lemma zod_members_steps:
  "zod_members req ps g = Inr (ls, g') \<Longrightarrow> steps g g'"
proof (induction ps arbitrary: g ls)
  case Nil
  then show ?case by (auto intro: steps_refl)
next
  case (Cons p ps)
  obtain pn psch where p: "p = (pn, psch)" by (cases p)
  from Cons.prems p obtain z g1 rest where
    a: "schemaToZodType psch g = Inr (z, g1)" and
    b: "zod_members req ps g1 = Inr (rest, g')"
    by (auto simp: Let_def split: sum.splits if_splits)
  from schemaToZodType_steps [OF a] Cons.IH [OF b] show ?case
    by (blast intro: steps_trans)
qed

lemma generateZodSchema_steps:
  "generateZodSchema nm s g = Inr (code, g') \<Longrightarrow> steps g g'"
  by (auto simp: generateZodSchema_def Let_def split: json.splits sum.splits if_splits
      intro: steps_refl zod_members_steps schemaToZodType_steps)

lemma params_zod_types_steps: "params_zod_types ps g = Inr (zs, g') \<Longrightarrow> steps g g'"
proof (induction ps arbitrary: g zs)
  case Nil
  then show ?case by (auto intro: steps_refl)
next
  case (Cons p ps)
  from Cons.prems obtain z g1 rest where
    a: "schemaToZodType (param_schema p) g = Inr (z, g1)" and
    b: "params_zod_types ps g1 = Inr (rest, g')"
    by (auto split: sum.splits)
  from schemaToZodType_steps [OF a] Cons.IH [OF b] show ?case
    by (blast intro: steps_trans)
qed

lemma tools_zod_types_steps: "tools_zod_types ts g = Inr (zs, g') \<Longrightarrow> steps g g'"
proof (induction ts arbitrary: g zs)
  case Nil
  then show ?case by (auto intro: steps_refl)
next
  case (Cons t ts)
  from Cons.prems obtain z g1 rest where
    a: "params_zod_types (parameters t) g = Inr (z, g1)" and
    b: "tools_zod_types ts g1 = Inr (rest, g')"
    by (auto split: sum.splits)
  from params_zod_types_steps [OF a] Cons.IH [OF b] show ?case
    by (blast intro: steps_trans)
qed

lemma response_group_code_steps:
  "response_group_code grp g = Inr (c, g') \<Longrightarrow> steps g g'"
  by (auto simp: response_group_code_def Let_def split: prod.splits sum.splits if_splits
      intro: steps_refl generateInterface_steps)

lemma response_groups_steps: "response_groups grps g = Inr (cs, g') \<Longrightarrow> steps g g'"
proof (induction grps arbitrary: g cs)
  case Nil
  then show ?case by (auto intro: steps_refl)
next
  case (Cons grp grps)
  from Cons.prems obtain c g1 rest where
    a: "response_group_code grp g = Inr (c, g1)" and
    b: "response_groups grps g1 = Inr (rest, g')"
    by (auto split: sum.splits)
  from response_group_code_steps [OF a] Cons.IH [OF b] show ?case
    by (blast intro: steps_trans)
qed

lemma interface_declarations_steps:
  "interface_declarations es g = Inr (ds, g') \<Longrightarrow> steps g g'"
proof (induction es arbitrary: g ds)
  case Nil
  then show ?case by (auto intro: steps_refl)
next
  case (Cons e es)
  from Cons.prems obtain d g1 rest where
    a: "generateInterface (name e) (schema e) 0 g = Inr (d, g1)" and
    b: "interface_declarations es g1 = Inr (rest, g')"
    by (auto split: sum.splits)
  from generateInterface_steps [OF a] Cons.IH [OF b] show ?case
    by (blast intro: steps_trans)
qed

lemma zod_declarations_steps:
  "zod_declarations es g = Inr (ds, g') \<Longrightarrow> steps g g'"
proof (induction es arbitrary: g ds)
  case Nil
  then show ?case by (auto intro: steps_refl)
next
  case (Cons e es)
  from Cons.prems obtain d g1 rest where
    a: "generateZodSchema (name e) (schema e) g = Inr (d, g1)" and
    b: "zod_declarations es g1 = Inr (rest, g')"
    by (auto split: sum.splits)
  from generateZodSchema_steps [OF a] Cons.IH [OF b] show ?case
    by (blast intro: steps_trans)
qed

lemma generateTypeScriptFiles_steps:
  assumes "generateTypeScriptFiles tools g = Inr (td, g')"
  shows "steps g g'"
proof -
  from assms obtain zs g1 cs g2 ni g3 nz where
    a: "tools_zod_types tools g = Inr (zs, g1)" and
    b: "response_groups (map_values (responseSchemaMap tools)) g1 = Inr (cs, g2)" and
    c: "interface_declarations (map_values (extractedSchemas g2)) g2 = Inr (ni, g3)" and
    d: "zod_declarations (map_values (extractedSchemas g3)) g3 = Inr (nz, g')"
    by (auto simp: generateTypeScriptFiles_def responseInterfaces_def nestedInterfaces_def
        nestedZodSchemas_def split: sum.splits)
  from tools_zod_types_steps [OF a] response_groups_steps [OF b]
    interface_declarations_steps [OF c] zod_declarations_steps [OF d]
  show ?thesis by (blast intro: steps_trans)
qed


lemma reset_invariants:
  "distinct (map fst (extractedSchemas (reset comps :: generator)))"
  "component_named (reset comps)"
  "self_keyed (reset comps)"
  "fallback_names (reset comps :: generator)
     = map (\<lambda>i. ''NestedType'' @ show_nat i) [1..<Suc (schemaCounter (reset comps :: generator))]"
  "componentSchemas (reset comps :: generator) = comps"
  by (simp_all add: reset_def component_named_def self_keyed_def fallback_names_def)

lemma run_invariants:
  assumes "steps (reset comps) g"
  shows "distinct (map fst (extractedSchemas g))"
    and "component_named g"
    and "self_keyed g"
    and "fallback_names g = map (\<lambda>i. ''NestedType'' @ show_nat i) [1..<Suc (schemaCounter g)]"
    and "componentSchemas g = comps"
  using steps_distinct [OF assms reset_invariants(1)]
    steps_component_named [OF assms reset_invariants(2)]
    steps_self_keyed [OF assms reset_invariants(3)]
    steps_fallback_names [OF assms reset_invariants(4)]
    steps_components [OF assms] reset_invariants(5) [of comps]
  by simp_all

lemma fallback_names_distinct:
  assumes "steps (reset comps) g"
  shows "distinct (fallback_names g)"
proof -
  have "inj_on (\<lambda>i. ''NestedType'' @ show_nat i) (set [1..<Suc (schemaCounter g)])"
    by (auto simp: inj_on_def dest: show_nat_inj)
  then show ?thesis
    unfolding run_invariants(4) [OF assms] by (simp add: distinct_map)
qed


section \<open>Evaluation of the example inputs\<close>

lemmas registration_eval = extractNestedSchema_def register_schema_cases lookup_truthy_def

lemma hoistable_owner: "hoistable owner_schema"
  by (simp add: hoistable_def shouldExtractNestedSchema_def Object_keys_def example_defs)

lemma hoistable_point: "hoistable point_schema"
  by (simp add: hoistable_def shouldExtractNestedSchema_def Object_keys_def example_defs)

lemma keys_differ: "JSON_stringify owner_schema \<noteq> JSON_stringify point_schema"
  by (simp add: example_defs stringify_eval)

lemma truthy_examples: "truthy point_schema" "truthy owner_schema"
  by (simp_all add: example_defs)

lemma owner_no_enum: "\<not> truthy_opt (get_field owner_schema ''enum'')"
  by (simp add: example_defs)

lemma owner_not_nullable: "\<not> truthy_opt (get_field owner_schema ''nullable'')"
  by (simp add: example_defs)

lemma no_components_lookup: "lookup_truthy no_components k = None"
  by (simp add: lookup_truthy_def no_components_def)

lemma owner_index: "lookup_truthy owner_components (JSON_stringify owner_schema) = Some ''Owner''"
  by (simp add: lookup_truthy_def owner_components_def)

lemma steps_two_registered: "steps (reset no_components) two_registered"
  unfolding two_registered_def start_def
  by (intro steps_register steps_refl hoistable_owner hoistable_point)

lemma steps_clash_registered: "steps (reset clash_components) clash_registered"
  unfolding clash_registered_def clash_start_def
  by (intro steps_register steps_refl hoistable_owner hoistable_point)

lemma steps_owner_start: "steps (reset owner_components) owner_start"
  by (simp add: owner_start_def steps_refl)

lemma steps_owner_registered: "steps (reset no_components) owner_registered"
  unfolding owner_registered_def start_def
  by (intro steps_register steps_refl hoistable_owner)

lemma two_registered_table:
  "extractedSchemas two_registered =
     [(JSON_stringify owner_schema, \<lparr>schema = owner_schema, name = ''NestedType1''\<rparr>),
      (JSON_stringify point_schema, \<lparr>schema = point_schema, name = ''NestedType2''\<rparr>)]"
  using keys_differ
  by (simp add: two_registered_def start_def reset_def no_components_def registration_eval
      show_nat.simps hexdigit_def)

lemma clash_registered_table:
  "extractedSchemas clash_registered =
     [(JSON_stringify point_schema, \<lparr>schema = point_schema, name = ''NestedType1''\<rparr>),
      (JSON_stringify owner_schema, \<lparr>schema = owner_schema, name = ''NestedType1''\<rparr>)]"
  using keys_differ
  by (auto simp add: clash_registered_def clash_start_def reset_def clash_components_def
      registration_eval show_nat.simps hexdigit_def)

lemma owner_registered_table:
  "extractedSchemas owner_registered =
     [(JSON_stringify owner_schema, \<lparr>schema = owner_schema, name = ''NestedType1''\<rparr>)]"
  by (simp add: owner_registered_def start_def reset_def no_components_def registration_eval
      show_nat.simps hexdigit_def)

lemma owner_registered_components: "componentSchemas owner_registered = no_components"
  by (simp add: owner_registered_def start_def reset_def no_components_def registration_eval)

lemma extract_owner_start:
  "extractNestedSchema owner_schema start = (''NestedType1'', owner_registered)"
  by (simp add: owner_registered_def start_def reset_def no_components_def registration_eval
      show_nat.simps hexdigit_def)

lemma extract_point_clash:
  "extractNestedSchema point_schema clash_start
     = (''NestedType1'', snd (extractNestedSchema point_schema clash_start))"
  using keys_differ
  by (auto simp: clash_start_def reset_def clash_components_def registration_eval
      show_nat.simps hexdigit_def)

lemma extract_owner_clash:
  "extractNestedSchema owner_schema (snd (extractNestedSchema point_schema clash_start))
     = (''NestedType1'', clash_registered)"
  using keys_differ
  by (auto simp: clash_registered_def clash_start_def reset_def clash_components_def
      registration_eval show_nat.simps hexdigit_def)

lemma generateInterface_owner:
  "generateInterface nm owner_schema 0 g = Inr (owner_interface nm, g)"
  by (simp add: generateInterface_def example_defs required_or_empty_def doc_line_def
      member_line_def owner_interface_def)

lemma generateInterface_point:
  "generateInterface nm point_schema 0 g = Inr (point_interface nm, g)"
  by (simp add: generateInterface_def example_defs required_or_empty_def doc_line_def
      member_line_def point_interface_def)

lemma generateInterface_account:
  "generateInterface ''Account'' account_schema 0 start = Inr (account_interface, start)"
  by (simp add: generateInterface_def example_defs required_or_empty_def doc_line_def
      member_line_def account_interface_def)

lemma generateZodSchema_owner:
  "generateZodSchema nm owner_schema g = Inr (owner_validator nm, g)"
  by (simp add: generateZodSchema_def example_defs required_or_empty_def owner_validator_def)

lemma generateZodSchema_point:
  "generateZodSchema nm point_schema g = Inr (point_validator nm, g)"
  by (simp add: generateZodSchema_def example_defs required_or_empty_def point_validator_def)

section \<open>The fingerprint and the order of properties\<close>

subsection \<open>Quoted strings\<close>

lemma hexdigit_value:
  "k < 16 \<Longrightarrow>
   (if of_char (hexdigit k) < (58::nat) then of_char (hexdigit k) - 48
    else of_char (hexdigit k) - 87) = k"
proof -
  assume "k < 16"
  then have "k = 0 \<or> k = 1 \<or> k = 2 \<or> k = 3 \<or> k = 4 \<or> k = 5 \<or> k = 6 \<or> k = 7 \<or> k = 8
      \<or> k = 9 \<or> k = 10 \<or> k = 11 \<or> k = 12 \<or> k = 13 \<or> k = 14 \<or> k = 15"
    by arith
  then show ?thesis by (auto simp: hexdigit_def)
qed

lemma escape_char_decode:
  "escape_char c @ X = escape_char d @ Y \<Longrightarrow> c = d \<and> X = Y"
proof -
  define hv :: "char \<Rightarrow> nat" where
    "hv = (\<lambda>h. if of_char h < (58::nat) then of_char h - 48 else of_char h - 87)"
  define dec :: "string \<Rightarrow> char \<times> string" where
    "dec = (\<lambda>Z. case Z of
        [] \<Rightarrow> (CHR 0x00, [])
      | a # r \<Rightarrow>
          if a \<noteq> CHR 0x5C then (a, r)
          else (case r of
                  [] \<Rightarrow> (CHR 0x00, [])
                | b # r2 \<Rightarrow>
                    if b = CHR 0x22 then (CHR 0x22, r2)
                    else if b = CHR 0x5C then (CHR 0x5C, r2)
                    else if b = CHR ''b'' then (CHR 0x08, r2)
                    else if b = CHR ''f'' then (CHR 0x0C, r2)
                    else if b = CHR ''n'' then (CHR 0x0A, r2)
                    else if b = CHR ''r'' then (CHR 0x0D, r2)
                    else if b = CHR ''t'' then (CHR 0x09, r2)
                    else (case r2 of
                            z1 # z2 # h # l # r3 \<Rightarrow> (char_of (16 * hv h + hv l), r3)
                          | _ \<Rightarrow> (CHR 0x00, []))))"
  have dec: "dec (escape_char c @ X) = (c, X)" for c X
  proof (cases "c \<in> {CHR 0x22, CHR 0x5C, CHR 0x08, CHR 0x0C, CHR 0x0A, CHR 0x0D, CHR 0x09}")
    case True
    then show ?thesis by (auto simp: dec_def escape_char_def)
  next
    case False
    show ?thesis
    proof (cases "(of_char c :: nat) < 32")
      case True
      then have "(of_char c :: nat) div 16 < 16" "(of_char c :: nat) mod 16 < 16" by auto
      then have "hv (hexdigit (of_char c div 16)) = of_char c div 16"
        "hv (hexdigit (of_char c mod 16)) = of_char c mod 16"
        unfolding hv_def using hexdigit_value by blast+
      then have "char_of (16 * hv (hexdigit (of_char c div 16))
           + hv (hexdigit (of_char c mod 16)) :: nat) = c"
        by simp
      with True False show ?thesis by (simp add: dec_def escape_char_def)
    next
      case False
      with \<open>c \<notin> _\<close> show ?thesis by (simp add: dec_def escape_char_def)
    qed
  qed
  assume "escape_char c @ X = escape_char d @ Y"
  then have "dec (escape_char c @ X) = dec (escape_char d @ Y)" by simp
  then show ?thesis by (simp only: dec prod.inject)
qed

lemma escape_char_head: "\<exists>a r. escape_char c = a # r \<and> a \<noteq> CHR 0x22"
  by (auto simp: escape_char_def)

lemma escaped_then_quote:
  "concat (map escape_char s) @ CHR 0x22 # r1 = concat (map escape_char t) @ CHR 0x22 # r2
   \<Longrightarrow> s = t \<and> r1 = r2"
proof (induction s arbitrary: t)
  case Nil
  show ?case
  proof (cases t)
    case Nil
    with Nil.prems show ?thesis by simp
  next
    case (Cons d t')
    with Nil.prems escape_char_head [of d] show ?thesis by auto
  qed
next
  case (Cons c s)
  show ?case
  proof (cases t)
    case Nil
    with Cons.prems escape_char_head [of c] show ?thesis by auto
  next
    case (Cons d t')
    with Cons.prems have
      "escape_char c @ (concat (map escape_char s) @ CHR 0x22 # r1)
       = escape_char d @ (concat (map escape_char t') @ CHR 0x22 # r2)"
      by simp
    from escape_char_decode [OF this] Cons.IH [of t'] Cons show ?thesis by simp
  qed
qed

lemma quote_then_other: "quote s @ r1 = quote t @ r2 \<Longrightarrow> s = t \<and> r1 = r2"
  using escaped_then_quote [of s r1 t r2] by (simp add: quote_def)

lemma list_three_cases:
  obtains (nil) "xs = []" | (one) x where "xs = [x]" | (more) x y ys where "xs = x # y # ys"
proof (cases xs)
  case Nil
  then show ?thesis by (rule nil)
next
  case (Cons x l)
  then show ?thesis by (cases l) (auto intro: one more)
qed

subsection \<open>Objects built by insertion\<close>

lemma set_property_fresh: "k \<notin> fst ` set kvs \<Longrightarrow> set_property kvs k v = kvs @ [(k, v)]"
  by (induction kvs) auto

lemma foldl_set_property:
  "distinct (map fst (acc @ ps)) \<Longrightarrow>
   foldl (\<lambda>kvs (k, v). set_property kvs k v) acc ps = acc @ ps"
proof (induction ps arbitrary: acc)
  case Nil
  then show ?case by simp
next
  case (Cons p ps)
  obtain k v where p: "p = (k, v)" by (cases p)
  from Cons.prems p have "k \<notin> fst ` set acc" by auto
  then have "set_property acc k v = acc @ [(k, v)]" by (rule set_property_fresh)
  moreover from Cons.prems p have "distinct (map fst ((acc @ [(k, v)]) @ ps))" by simp
  ultimately show ?case using Cons.IH [of "acc @ [(k, v)]"] p by simp
qed

lemma Object_fromEntries_distinct:
  "distinct (map fst ps) \<Longrightarrow> Object_fromEntries ps = JObj (own_property_order ps)"
  using foldl_set_property [of "[]" ps] by (simp add: Object_fromEntries_def)

lemma array_index_inj: "array_index k = Some n \<Longrightarrow> array_index k' = Some n \<Longrightarrow> k = k'"
proof -
  have "array_index x = Some m \<Longrightarrow> x = show_digits m" for x m
    unfolding array_index_def Let_def by (metis option.inject option.distinct(1))
  then show "array_index k = Some n \<Longrightarrow> array_index k' = Some n \<Longrightarrow> k = k'" by blast
qed

lemma same_keys_same_list:
  "map fst xs = map fst ys \<Longrightarrow> (\<forall>x\<in>set xs. \<forall>y\<in>set ys. fst x = fst y \<longrightarrow> x = y) \<Longrightarrow> xs = ys"
proof (induction xs arbitrary: ys)
  case Nil
  then show ?case by simp
next
  case (Cons x xs)
  then obtain y ys' where ys: "ys = y # ys'" by (cases ys) auto
  with Cons.prems have "x = y" by auto
  moreover from Cons.prems ys have "xs = ys'" by (intro Cons.IH) auto
  ultimately show ?case using ys by simp
qed

lemma own_property_order_eq:
  assumes dp: "distinct (map fst ps)" and dq: "distinct (map fst qs)" and same: "set ps = set qs"
    and named: "filter (\<lambda>k. array_index k = None) (map fst ps)
                = filter (\<lambda>k. array_index k = None) (map fst qs)"
  shows "own_property_order ps = own_property_order qs"
proof -
  let ?P = "\<lambda>kv :: string \<times> 'a. array_index (fst kv) = None"
  let ?I = "\<lambda>kv :: string \<times> 'a. array_index (fst kv) \<noteq> None"
  let ?f = "\<lambda>kv :: string \<times> 'a. the (array_index (fst kv))"
  have unique: "x = y" if "x \<in> set ps" "y \<in> set ps" "fst x = fst y" for x y
    using that dp by (metis distinct_map inj_on_def)
  have "map fst (filter ?P ps) = map fst (filter ?P qs)"
    using named by (simp add: filter_map comp_def)
  then have rest: "filter ?P ps = filter ?P qs"
    by (rule same_keys_same_list) (use same unique in auto)
  have inj: "inj_on ?f (set (filter ?I ps))"
  proof (rule inj_onI)
    fix x y
    assume x: "x \<in> set (filter ?I ps)" and y: "y \<in> set (filter ?I ps)" and eq: "?f x = ?f y"
    from x y eq have "fst x = fst y" by (auto intro: array_index_inj)
    with x y show "x = y" by (intro unique) auto
  qed
  have sets: "set (filter ?I ps) = set (filter ?I qs)" using same by auto
  have dps: "distinct (filter ?I ps)" "distinct (filter ?I qs)"
    using dp dq by (auto simp: distinct_map)
  have "map ?f (sort_key ?f (filter ?I ps)) = map ?f (sort_key ?f (filter ?I qs))"
  proof (rule sorted_distinct_set_unique)
    show "sorted (map ?f (sort_key ?f (filter ?I ps)))" by (rule sorted_sort_key)
    show "sorted (map ?f (sort_key ?f (filter ?I qs)))" by (rule sorted_sort_key)
    show "distinct (map ?f (sort_key ?f (filter ?I ps)))"
      using inj dps by (simp add: distinct_map)
    show "distinct (map ?f (sort_key ?f (filter ?I qs)))"
      using inj dps sets by (simp add: distinct_map)
    show "set (map ?f (sort_key ?f (filter ?I ps))) = set (map ?f (sort_key ?f (filter ?I qs)))"
      using sets by simp
  qed
  moreover have "inj_on ?f (set (sort_key ?f (filter ?I ps)) \<union> set (sort_key ?f (filter ?I qs)))"
    using inj sets by simp
  ultimately have "sort_key ?f (filter ?I ps) = sort_key ?f (filter ?I qs)"
    by (simp add: inj_on_map_eq_map)
  with rest show ?thesis by (simp add: own_property_order_def)
qed

lemma own_property_order_named:
  "filter (\<lambda>kv. array_index (fst kv) = None) (own_property_order ps)
   = filter (\<lambda>kv. array_index (fst kv) = None) ps"
  by (simp add: own_property_order_def filter_empty_conv)

lemma own_property_order_set: "set (own_property_order ps) = set ps"
  by (auto simp: own_property_order_def)

subsection \<open>Members\<close>

lemma quote_nonempty: "quote k \<noteq> []"
  by (simp add: quote_def)

lemma members_same_values:
  "stringify_members xs = stringify_members ys \<Longrightarrow>
   (\<forall>x\<in>set xs. \<forall>y\<in>set ys. fst x = fst y \<longrightarrow> x = y) \<Longrightarrow> xs = ys"
proof (induction xs arbitrary: ys rule: induct_list012)
  case 1
  then show ?case
    by (cases ys rule: list_three_cases) (auto simp: quote_def)
next
  case (2 x)
  obtain k v where x: "x = (k, v)" by (cases x)
  show ?case
  proof (cases ys rule: list_three_cases)
    case nil
    with 2 x show ?thesis by (simp add: quote_def)
  next
    case (one y)
    obtain k' v' where y: "y = (k', v')" by (cases y)
    with 2 one x have "quote k @ ('':'' @ JSON_stringify v) = quote k' @ ('':'' @ JSON_stringify v')"
      by simp
    from quote_then_other [OF this] have "k = k'" by simp
    with 2 one x y show ?thesis by simp
  next
    case (more y z zs)
    obtain k' v' where y: "y = (k', v')" by (cases y)
    from 2 more x y have "quote k @ ('':'' @ JSON_stringify v)
        = quote k' @ ('':'' @ JSON_stringify v' @ '','' @ stringify_members (z # zs))"
      by simp
    from quote_then_other [OF this] have k: "k = k'"
      and r: "JSON_stringify v = JSON_stringify v' @ '','' @ stringify_members (z # zs)" by simp_all
    from 2 more x y k have "v = v'" by simp
    with r show ?thesis by simp
  qed
next
  case (3 x m ms)
  obtain k v where x: "x = (k, v)" by (cases x)
  show ?case
  proof (cases ys rule: list_three_cases)
    case nil
    with "3.prems" x show ?thesis by (simp add: quote_def)
  next
    case (one y)
    obtain k' v' where y: "y = (k', v')" by (cases y)
    from "3.prems" one x y have "quote k @ ('':'' @ JSON_stringify v @ '','' @ stringify_members (m # ms))
        = quote k' @ ('':'' @ JSON_stringify v')"
      by simp
    from quote_then_other [OF this] have k: "k = k'"
      and r: "JSON_stringify v @ '','' @ stringify_members (m # ms) = JSON_stringify v'" by simp_all
    from "3.prems" one x y k have "v = v'" by simp
    with r show ?thesis by simp
  next
    case (more y z zs)
    obtain k' v' where y: "y = (k', v')" by (cases y)
    from "3.prems" more x y have "quote k @ ('':'' @ JSON_stringify v @ '','' @ stringify_members (m # ms))
        = quote k' @ ('':'' @ JSON_stringify v' @ '','' @ stringify_members (z # zs))"
      by simp
    from quote_then_other [OF this] have k: "k = k'"
      and r: "JSON_stringify v @ '','' @ stringify_members (m # ms)
              = JSON_stringify v' @ '','' @ stringify_members (z # zs)" by simp_all
    from "3.prems" more x y k have v: "v = v'" by simp
    with r have "stringify_members (m # ms) = stringify_members (z # zs)" by simp
    moreover from "3.prems" more have "\<forall>x\<in>set (m # ms). \<forall>y\<in>set (z # zs). fst x = fst y \<longrightarrow> x = y"
      by simp
    ultimately have "m # ms = z # zs" by (rule "3.IH"(2))
    with more x y k v show ?thesis by simp
  qed
qed

lemma members_context:
  "(stringify_members (pre @ (k, a) # post) = stringify_members (pre @ (k, b) # post))
   = (JSON_stringify a = JSON_stringify b)"
proof (induction pre)
  case Nil
  show ?case by (cases post) auto
next
  case (Cons p pre)
  obtain k' v' where p: "p = (k', v')" by (cases p)
  obtain m ms where a: "pre @ (k, a) # post = m # ms" by (cases pre) auto
  obtain m' ms' where b: "pre @ (k, b) # post = m' # ms'" by (cases pre) auto
  from Cons a b p show ?case by simp
qed

subsection \<open>The examples\<close>

lemma array_index_examples:
  "array_index ''b'' = None" "array_index ''1'' = Some 1" "array_index ''2'' = Some 2"
  "array_index ''login'' = None" "array_index ''id'' = None" "array_index ''type'' = None"
  by (simp_all add: array_index_def show_digits.simps hexdigit_def)

lemma fromEntries_examples:
  "Object_fromEntries owner_props = JObj owner_props"
  "Object_fromEntries owner_props_reordered = JObj owner_props_reordered"
  "Object_fromEntries mixed_props = JObj mixed_props_reordered"
  "Object_fromEntries mixed_props_reordered = JObj mixed_props_reordered"
  by (simp_all add: Object_fromEntries_def own_property_order_def example_defs array_index_examples)

subsection \<open>The order of insertion\<close>

text \<open>
  C1, as the code computes the fingerprint. \<^verbatim>\<open>JSON.stringify\<close> is a function of the
  node, so repeated calls give the same string, and it writes the properties of an object
  in their own order. Take two objects that hold the same properties, each name once
  with the same value, inserted in any two orders. They have the same fingerprint if
  and only if their names that are not array indices were inserted in the same order;
  and so have two nodes that hold them under the same name among the same other
  properties, as a schema holds its \<^verbatim>\<open>properties\<close>.
\<close>

theorem fingerprint_property_order:
  assumes "distinct (map fst ps)" and "distinct (map fst qs)" and "set ps = set qs"
  shows "(JSON_stringify (Object_fromEntries ps) = JSON_stringify (Object_fromEntries qs)
          \<longleftrightarrow> filter (\<lambda>k. array_index k = None) (map fst ps)
               = filter (\<lambda>k. array_index k = None) (map fst qs))
       \<and> (\<forall>pre k post.
            JSON_stringify (JObj (pre @ (k, Object_fromEntries ps) # post))
            = JSON_stringify (JObj (pre @ (k, Object_fromEntries qs) # post))
            \<longleftrightarrow> filter (\<lambda>k. array_index k = None) (map fst ps)
                 = filter (\<lambda>k. array_index k = None) (map fst qs))"
proof -
  let ?named = "\<lambda>ps :: (string \<times> json) list. filter (\<lambda>k. array_index k = None) (map fst ps)"
  have unique: "x = y" if "x \<in> set ps" "y \<in> set ps" "fst x = fst y" for x y
    using that assms(1) by (metis distinct_map inj_on_def)
  have main: "(JSON_stringify (Object_fromEntries ps) = JSON_stringify (Object_fromEntries qs))
      = (?named ps = ?named qs)"
  proof
    assume "JSON_stringify (Object_fromEntries ps) = JSON_stringify (Object_fromEntries qs)"
    then have "stringify_members (own_property_order ps) = stringify_members (own_property_order qs)"
      using assms(1,2) by (simp add: Object_fromEntries_distinct)
    then have "own_property_order ps = own_property_order qs"
      by (rule members_same_values) (use assms(3) unique in \<open>auto simp: own_property_order_set\<close>)
    then have "filter (\<lambda>kv. array_index (fst kv) = None) ps
        = filter (\<lambda>kv. array_index (fst kv) = None) qs"
      using own_property_order_named [of ps] own_property_order_named [of qs] by simp
    then have "map fst (filter (\<lambda>kv. array_index (fst kv) = None) ps)
        = map fst (filter (\<lambda>kv. array_index (fst kv) = None) qs)" by simp
    then show "?named ps = ?named qs" by (simp add: filter_map comp_def)
  next
    assume "?named ps = ?named qs"
    with assms have "own_property_order ps = own_property_order qs"
      by (rule own_property_order_eq)
    with assms(1,2) show "JSON_stringify (Object_fromEntries ps) = JSON_stringify (Object_fromEntries qs)"
      by (simp add: Object_fromEntries_distinct)
  qed
  show ?thesis
    using main members_context [of _ _ "Object_fromEntries ps" _ "Object_fromEntries qs"]
    by simp
qed

theorem fingerprint_property_order_witness:
  "distinct (map fst mixed_props) \<and> distinct (map fst mixed_props_reordered)
   \<and> set mixed_props = set mixed_props_reordered
   \<and> map fst mixed_props \<noteq> map fst mixed_props_reordered
   \<and> Object_fromEntries mixed_props = JObj mixed_props_reordered
   \<and> JSON_stringify (Object_fromEntries mixed_props)
       = JSON_stringify (Object_fromEntries mixed_props_reordered)
   \<and> JSON_stringify (JObj [(''type'', JStr ''object''),
                            (''properties'', Object_fromEntries mixed_props)])
       = JSON_stringify (JObj [(''type'', JStr ''object''),
                              (''properties'', Object_fromEntries mixed_props_reordered)])
   \<and> distinct (map fst owner_props) \<and> distinct (map fst owner_props_reordered)
   \<and> set owner_props = set owner_props_reordered
   \<and> JSON_stringify (Object_fromEntries owner_props)
       \<noteq> JSON_stringify (Object_fromEntries owner_props_reordered)
   \<and> JSON_stringify (JObj [(''type'', JStr ''object''),
                            (''properties'', Object_fromEntries owner_props)])
       \<noteq> JSON_stringify (JObj [(''type'', JStr ''object''),
                              (''properties'', Object_fromEntries owner_props_reordered)])"
proof -
  have m: "distinct (map fst mixed_props)" "distinct (map fst mixed_props_reordered)"
    "set mixed_props = set mixed_props_reordered"
    "map fst mixed_props \<noteq> map fst mixed_props_reordered"
    by (auto simp: example_defs)
  have ow: "distinct (map fst owner_props)" "distinct (map fst owner_props_reordered)"
    "set owner_props = set owner_props_reordered"
    by (auto simp: example_defs)
  have mn: "filter (\<lambda>k. array_index k = None) (map fst mixed_props)
      = filter (\<lambda>k. array_index k = None) (map fst mixed_props_reordered)"
    by (simp add: example_defs array_index_examples)
  have own: "filter (\<lambda>k. array_index k = None) (map fst owner_props)
      \<noteq> filter (\<lambda>k. array_index k = None) (map fst owner_props_reordered)"
    by (simp add: example_defs array_index_examples)
  note mixed = fingerprint_property_order [OF m(1,2,3)]
  note owner = fingerprint_property_order [OF ow]
  have m1: "JSON_stringify (Object_fromEntries mixed_props)
      = JSON_stringify (Object_fromEntries mixed_props_reordered)"
    using mixed mn by blast
  have m2: "JSON_stringify (JObj ([(''type'', JStr ''object'')]
                @ (''properties'', Object_fromEntries mixed_props) # []))
      = JSON_stringify (JObj ([(''type'', JStr ''object'')]
                @ (''properties'', Object_fromEntries mixed_props_reordered) # []))"
    using mixed mn by blast
  have o1: "JSON_stringify (Object_fromEntries owner_props)
      \<noteq> JSON_stringify (Object_fromEntries owner_props_reordered)"
    using owner own by blast
  have o2: "JSON_stringify (JObj ([(''type'', JStr ''object'')]
                @ (''properties'', Object_fromEntries owner_props) # []))
      \<noteq> JSON_stringify (JObj ([(''type'', JStr ''object'')]
                @ (''properties'', Object_fromEntries owner_props_reordered) # []))"
    using owner own by blast
  from m2 have m2': "JSON_stringify (JObj [(''type'', JStr ''object''),
                            (''properties'', Object_fromEntries mixed_props)])
       = JSON_stringify (JObj [(''type'', JStr ''object''),
                              (''properties'', Object_fromEntries mixed_props_reordered)])"
    unfolding append_Cons append_Nil .
  from o2 have o2': "JSON_stringify (JObj [(''type'', JStr ''object''),
                            (''properties'', Object_fromEntries owner_props)])
       \<noteq> JSON_stringify (JObj [(''type'', JStr ''object''),
                              (''properties'', Object_fromEntries owner_props_reordered)])"
    unfolding append_Cons append_Nil .
  show ?thesis
    by (intro conjI m ow m1 m2' o1 o2' fromEntries_examples(3))
qed

text \<open>
  The claim as stated fails: the same three properties in another insertion order give
  another fingerprint, in the generator and in the index the parser builds, where the
  reordered schema is not found under the component's name.
\<close>

theorem fingerprint_order_counterexample:
  "set owner_props = set owner_props_reordered
   \<and> get_field owner_schema ''properties'' = Some (Object_fromEntries owner_props)
   \<and> get_field owner_schema_reordered ''properties''
       = Some (Object_fromEntries owner_props_reordered)
   \<and> JSON_stringify owner_schema \<noteq> JSON_stringify owner_schema_reordered
   \<and> map_sum id (\<lambda>m. (m (JSON_stringify owner_schema),
                        m (JSON_stringify owner_schema_reordered)))
         (extractComponentNames api_document) = Inr (Some ''Owner'', None)"
proof -
  have "set owner_props = set owner_props_reordered"
    by (auto simp: example_defs)
  moreover have "get_field owner_schema ''properties'' = Some (Object_fromEntries owner_props)"
    "get_field owner_schema_reordered ''properties'' = Some (Object_fromEntries owner_props_reordered)"
    by (simp_all add: fromEntries_examples) (simp_all add: example_defs)
  moreover have "JSON_stringify owner_schema \<noteq> JSON_stringify owner_schema_reordered"
    by (simp add: example_defs stringify_eval)
  moreover have "map_sum id (\<lambda>m. (m (JSON_stringify owner_schema),
                        m (JSON_stringify owner_schema_reordered)))
         (extractComponentNames api_document) = Inr (Some ''Owner'', None)"
    by (simp add: example_defs stringify_eval extractComponentNames_def add_component_def)
  ultimately show ?thesis by blast
qed


section \<open>Component names\<close>

lemma lookup_truthy_nonempty: "lookup_truthy r k = Some c \<Longrightarrow> c \<noteq> []"
  by (auto simp: lookup_truthy_def split: option.splits if_splits)

lemma component_named_entry:
  assumes "component_named g" "map_of (extractedSchemas g) k = Some e"
    "lookup_truthy (componentSchemas g) k = Some c"
  shows "name e = c"
  using assms map_of_SomeD [OF assms(2)]
  by (auto simp: component_named_def list_all_iff)

lemma hoisted_TypeScript:
  assumes "hoistable s" "\<not> truthy_opt (get_field s ''enum'')"
  shows "schemaToTypeScript s g =
     Inr (if truthy_opt (get_field s ''nullable'')
          then fst (extractNestedSchema s g) @ '' | null'' else fst (extractNestedSchema s g),
          snd (extractNestedSchema s g))"
proof -
  obtain fs where "s = JObj fs" using assms(1) by (cases s) (auto simp: hoistable_def)
  with assms show ?thesis
    by (auto simp: hoistable_def Let_def split: prod.splits)
qed

lemma hoisted_ZodType:
  assumes "hoistable s" "\<not> truthy_opt (get_field s ''enum'')"
  shows "schemaToZodType s g =
     Inr (if truthy_opt (get_field s ''nullable'')
          then fst (extractNestedSchema s g) @ ''Schema'' @ ''.nullable()''
          else fst (extractNestedSchema s g) @ ''Schema'',
          snd (extractNestedSchema s g))"
proof -
  obtain fs where "s = JObj fs" using assms(1) by (cases s) (auto simp: hoistable_def)
  with assms show ?thesis
    by (auto simp: hoistable_def Let_def split: prod.splits)
qed


lemma hoisted_items_ZodType:
  assumes "hoistable s"
  shows "schemaToZodType (JObj [(''type'', JStr ''array''), (''items'', s)]) g =
     Inr (''array('' @ fst (extractNestedSchema s g) @ ''Schema)'', snd (extractNestedSchema s g))"
proof -
  have "truthy s" using assms by (cases s) (auto simp: hoistable_def)
  with assms show ?thesis
    by (auto simp: hoistable_def Let_def split: prod.splits)
qed

lemma responseSchemaMap_snoc:
  "responseSchemaMap (tools @ [t]) = add_response (responseSchemaMap tools) t"
  by (simp add: responseSchemaMap_def)

lemma responseSchemaMap_group:
  "map_of (responseSchemaMap tools) k =
     (case filter (same_response k) tools of
        [] \<Rightarrow> None
      | t # ts \<Rightarrow> Some (map responseTypeName (t # ts), the (responseSchema t)))"
proof (induction tools rule: rev_induct)
  case Nil
  then show ?case by (simp add: responseSchemaMap_def)
next
  case (snoc t tools)
  show ?case
  proof (cases "truthy_opt (responseSchema t)")
    case False
    with snoc show ?thesis
      by (simp add: responseSchemaMap_snoc add_response_def same_response_def)
  next
    case True
    show ?thesis
    proof (cases "JSON_stringify (the (responseSchema t)) = k")
      case False
      with True snoc show ?thesis
        by (auto simp: responseSchemaMap_snoc add_response_def same_response_def Let_def
            map_get_def map_of_map_set split: option.splits)
    next
      case same: True
      with True snoc show ?thesis
        by (auto simp: responseSchemaMap_snoc add_response_def same_response_def Let_def
            map_get_def map_of_map_set split: option.splits list.splits)
    qed
  qed
qed

lemma alias_lines_length: "r \<notin> set xs \<Longrightarrow> length (alias_lines xs r) = length xs"
  by (induction xs) (auto simp: alias_lines_def)

lemma generateInterface_object:
  assumes "generateInterface nm s 0 g = Inr (code, g')"
    and "get_field s ''type'' = Some (JStr ''object'')"
    and "truthy_opt (get_field s ''properties'')"
  shows "\<exists>body. code = ''export interface '' @ nm @ '' {'' @ newline @ body @ ''}'' @ newline"
proof -
  obtain fs where "s = JObj fs" using assms(2) by (cases s) auto
  with assms show ?thesis
    by (auto simp: generateInterface_def Let_def split: sum.splits)
qed

lemma run_names_nonempty:
  assumes run: "steps (reset comps) g" and e: "(k, e) \<in> set (extractedSchemas g)"
  shows "name e \<noteq> []"
proof (cases "lookup_truthy comps k")
  case None
  have "name e \<in> set (fallback_names g)"
    using e None run_invariants(5) [OF run] by (force simp: fallback_names_def)
  then show ?thesis unfolding run_invariants(4) [OF run] by auto
next
  case (Some c)
  have "name e = c"
    using run_invariants(2) [OF run] e Some run_invariants(5) [OF run]
    by (auto simp: component_named_def list_all_iff)
  with lookup_truthy_nonempty [OF Some] show ?thesis by simp
qed

lemma response_map_two:
  "responseSchemaMap [get_tool, list_tool] =
     [(JSON_stringify owner_schema, ([''GetResponse'', ''ListResponse''], owner_schema))]"
  by (simp add: responseSchemaMap_def add_response_def map_get_def get_tool_def list_tool_def
      owner_schema_def object_schema_def)

lemma response_group_named:
  "response_group_code ([''GetResponse'', ''ListResponse''], owner_schema) owner_start =
     Inr ((owner_interface ''Owner'',
           [''export type GetResponse = Owner;'', ''export type ListResponse = Owner;'']),
          owner_start)"
  using owner_index
  by (simp add: response_group_code_def generateInterface_owner alias_lines_def map_has_def
      owner_start_def reset_def)

lemma response_group_unnamed:
  "response_group_code ([''GetResponse'', ''ListResponse''], owner_schema) start =
     Inr ((owner_interface ''GetResponse'', [''export type ListResponse = GetResponse;'']),
          start)"
  by (simp add: response_group_code_def generateInterface_owner alias_lines_def map_has_def
      start_def reset_def no_components_lookup)

lemma response_group_registered:
  "response_group_code ([''GetResponse'', ''ListResponse''], owner_schema) owner_registered =
     Inr (([], [''export type GetResponse = NestedType1;'',
                ''export type ListResponse = NestedType1;'']),
          owner_registered)"
  by (simp add: response_group_code_def alias_lines_def map_has_def map_get_def
      owner_registered_table owner_registered_components no_components_lookup)



section \<open>Response deduplication\<close>

text \<open>
  C5, as the resolver works. The group of a fingerprint holds the names of all
  operations that answer with it, in order. For an object schema with properties:
  if the fingerprint is neither in the table nor in the component name index, one
  interface is declared under the first name and every other name that differs from it
  gets an alias, which are N - 1 aliases when the names are distinct; if it has a
  component name \<open>c\<close> and is not in the table, one interface is declared under \<open>c\<close>
  and every name that differs from \<open>c\<close> gets an alias, N aliases when \<open>c\<close> is none
  of them; if it is in the table already, the resolver declares nothing and every name
  that differs from the registered name gets an alias to it.
\<close>

theorem response_group_declarations:
  assumes run: "steps (reset comps) g"
    and grp: "map_of (responseSchemaMap tools) (JSON_stringify s) = Some (names, s)"
    and obj: "get_field s ''type'' = Some (JStr ''object'')"
      "truthy_opt (get_field s ''properties'')"
    and code: "response_group_code (names, s) g = Inr ((code, aliases), g')"
  shows "names = map responseTypeName (filter (same_response (JSON_stringify s)) tools)
    \<and> (map_of (extractedSchemas g) (JSON_stringify s) = None
         \<and> lookup_truthy comps (JSON_stringify s) = None \<longrightarrow>
           (\<exists>body. code = ''export interface '' @ hd names @ '' {'' @ newline @ body @ ''}''
                            @ newline)
           \<and> aliases = alias_lines (tl names) (hd names)
           \<and> (distinct names \<longrightarrow> length aliases = length names - 1))
    \<and> (\<forall>c. map_of (extractedSchemas g) (JSON_stringify s) = None
         \<and> lookup_truthy comps (JSON_stringify s) = Some c \<longrightarrow>
           (\<exists>body. code = ''export interface '' @ c @ '' {'' @ newline @ body @ ''}'' @ newline)
           \<and> aliases = alias_lines names c
           \<and> (c \<notin> set names \<longrightarrow> length aliases = length names))
    \<and> (\<forall>e. map_of (extractedSchemas g) (JSON_stringify s) = Some e \<longrightarrow>
           code = [] \<and> g' = g
           \<and> aliases = alias_lines names (name e)
           \<and> (name e \<notin> set names \<longrightarrow> length aliases = length names))"
proof -
  note inv = run_invariants [OF run]
  let ?k = "JSON_stringify s"
  from grp have names: "names = map responseTypeName (filter (same_response ?k) tools)"
    and nonempty: "names \<noteq> []"
    by (auto simp: responseSchemaMap_group split: list.splits)
  then obtain n0 rest where nr: "names = n0 # rest" by (cases names) auto
  have A: "(\<exists>body. code = ''export interface '' @ hd names @ '' {'' @ newline @ body @ ''}''
                            @ newline)
           \<and> aliases = alias_lines (tl names) (hd names)
           \<and> (distinct names \<longrightarrow> length aliases = length names - 1)"
    if "map_of (extractedSchemas g) ?k = None" "lookup_truthy comps ?k = None"
  proof -
    from code that inv(5) nr have gi: "generateInterface n0 s 0 g = Inr (code, g')"
      and al: "aliases = alias_lines rest n0"
      by (auto simp: response_group_code_def Let_def map_has_def split: sum.splits)
    from generateInterface_object [OF gi obj] al nr alias_lines_length [of n0 rest]
    show ?thesis by auto
  qed
  have B: "(\<exists>body. code = ''export interface '' @ c @ '' {'' @ newline @ body @ ''}'' @ newline)
           \<and> aliases = alias_lines names c
           \<and> (c \<notin> set names \<longrightarrow> length aliases = length names)"
    if "map_of (extractedSchemas g) ?k = None" "lookup_truthy comps ?k = Some c" for c
  proof -
    from code that inv(5) have gi: "generateInterface c s 0 g = Inr (code, g')"
      and al: "aliases = alias_lines names c"
      by (auto simp: response_group_code_def Let_def map_has_def split: sum.splits)
    from generateInterface_object [OF gi obj] al alias_lines_length [of c names]
    show ?thesis by auto
  qed
  have C: "code = [] \<and> g' = g
           \<and> aliases = alias_lines names (name e)
           \<and> (name e \<notin> set names \<longrightarrow> length aliases = length names)"
    if "map_of (extractedSchemas g) ?k = Some e" for e
  proof -
    have "name e \<noteq> []" using run_names_nonempty [OF run map_of_SomeD [OF that]] .
    with code that have "code = []" "g' = g" "aliases = alias_lines names (name e)"
      by (auto simp: response_group_code_def Let_def map_has_def map_get_def
          split: sum.splits option.splits)
    with alias_lines_length [of "name e" names] show ?thesis by auto
  qed
  from names A B C show ?thesis by blast
qed

theorem response_group_declarations_witness:
  "steps (reset no_components) start
   \<and> map_of (responseSchemaMap [get_tool, list_tool]) (JSON_stringify owner_schema)
       = Some ([''GetResponse'', ''ListResponse''], owner_schema)
   \<and> get_field owner_schema ''type'' = Some (JStr ''object'')
   \<and> truthy_opt (get_field owner_schema ''properties'')
   \<and> response_group_code ([''GetResponse'', ''ListResponse''], owner_schema) start
       = Inr ((owner_interface ''GetResponse'', [''export type ListResponse = GetResponse;'']),
              start)
   \<and> [''GetResponse'', ''ListResponse'']
       = map responseTypeName
           (filter (same_response (JSON_stringify owner_schema)) [get_tool, list_tool])
   \<and> [''export type ListResponse = GetResponse;'']
       = alias_lines (tl [''GetResponse'', ''ListResponse'']) (hd [''GetResponse'', ''ListResponse''])
   \<and> length [''export type ListResponse = GetResponse;'']
       = length [''GetResponse'', ''ListResponse''] - 1
   \<and> steps (reset owner_components) owner_start
   \<and> response_group_code ([''GetResponse'', ''ListResponse''], owner_schema) owner_start
       = Inr ((owner_interface ''Owner'',
               [''export type GetResponse = Owner;'', ''export type ListResponse = Owner;'']),
              owner_start)
   \<and> length [''export type GetResponse = Owner;'', ''export type ListResponse = Owner;'']
       = length [''GetResponse'', ''ListResponse'']
   \<and> steps (reset no_components) owner_registered
   \<and> response_group_code ([''GetResponse'', ''ListResponse''], owner_schema) owner_registered
       = Inr (([], [''export type GetResponse = NestedType1;'',
                    ''export type ListResponse = NestedType1;'']),
              owner_registered)
   \<and> [''export type GetResponse = NestedType1;'', ''export type ListResponse = NestedType1;'']
       = alias_lines [''GetResponse'', ''ListResponse''] ''NestedType1''"
proof -
  have grp: "map_of (responseSchemaMap [get_tool, list_tool]) (JSON_stringify owner_schema)
       = Some ([''GetResponse'', ''ListResponse''], owner_schema)"
    by (simp add: response_map_two)
  have obj: "get_field owner_schema ''type'' = Some (JStr ''object'')"
    "truthy_opt (get_field owner_schema ''properties'')"
    by (simp_all add: example_defs)
  have s0: "steps (reset no_components) start" by (simp add: start_def steps_refl)
  have t0: "map_of (extractedSchemas start) (JSON_stringify owner_schema) = None"
    by (simp add: start_def reset_def)
  have t1: "map_of (extractedSchemas owner_start) (JSON_stringify owner_schema) = None"
    by (simp add: owner_start_def reset_def)
  have t2: "map_of (extractedSchemas owner_registered) (JSON_stringify owner_schema)
      = Some \<lparr>schema = owner_schema, name = ''NestedType1''\<rparr>"
    by (simp add: owner_registered_table)
  note A = response_group_declarations [OF s0 grp obj response_group_unnamed]
  note B = response_group_declarations [OF steps_owner_start grp obj response_group_named]
  note C = response_group_declarations [OF steps_owner_registered grp obj
      response_group_registered]
  from A t0 no_components_lookup [of "JSON_stringify owner_schema"]
  have a: "[''GetResponse'', ''ListResponse'']
       = map responseTypeName
           (filter (same_response (JSON_stringify owner_schema)) [get_tool, list_tool])"
    "[''export type ListResponse = GetResponse;'']
       = alias_lines (tl [''GetResponse'', ''ListResponse'']) (hd [''GetResponse'', ''ListResponse''])"
    by blast+
  from B t1 owner_index
  have b: "[''export type GetResponse = Owner;'', ''export type ListResponse = Owner;'']
      = alias_lines [''GetResponse'', ''ListResponse''] ''Owner''"
    by blast
  from C t2
  have c: "[''export type GetResponse = NestedType1;'', ''export type ListResponse = NestedType1;'']
       = alias_lines [''GetResponse'', ''ListResponse''] ''NestedType1''"
    by simp
  have l1: "length [''export type ListResponse = GetResponse;'']
       = length [''GetResponse'', ''ListResponse''] - 1"
    by simp
  have l2: "length [''export type GetResponse = Owner;'', ''export type ListResponse = Owner;'']
       = length [''GetResponse'', ''ListResponse'']"
    by simp
  show ?thesis
    by (intro conjI s0 grp obj response_group_unnamed a l1 steps_owner_start
        response_group_named l2 steps_owner_registered response_group_registered c)
qed

text \<open>
  The claim as stated fails for two operations whose response is an author-named
  component: the resolver emits one declaration and two aliases, not one.
\<close>

theorem response_alias_count_counterexample:
  "responseSchemaMap [get_tool, list_tool] =
     [(JSON_stringify owner_schema, ([''GetResponse'', ''ListResponse''], owner_schema))]
   \<and> response_groups (map_values (responseSchemaMap [get_tool, list_tool])) owner_start =
       Inr ([(owner_interface ''Owner'',
              [''export type GetResponse = Owner;'', ''export type ListResponse = Owner;''])],
            owner_start)"
  by (simp add: response_map_two map_values_def response_group_named)

section \<open>Names in the table\<close>

lemma run_fallback_names_differ:
  assumes run: "steps (reset comps) g"
    and e1: "(k1, e1) \<in> set (extractedSchemas g)"
    and e2: "(k2, e2) \<in> set (extractedSchemas g)"
    and ne: "k1 \<noteq> k2"
    and fb: "lookup_truthy comps k1 = None" "lookup_truthy comps k2 = None"
  shows "name e1 \<noteq> name e2"
proof
  assume eq: "name e1 = name e2"
  let ?fb = "filter (\<lambda>(k, e). lookup_truthy (componentSchemas g) k = None) (extractedSchemas g)"
  have inj: "inj_on (\<lambda>(k, e). name e) (set ?fb)"
    using fallback_names_distinct [OF run] by (simp add: fallback_names_def distinct_map)
  have "(k1, e1) \<in> set ?fb" "(k2, e2) \<in> set ?fb"
    using e1 e2 fb run_invariants(5) [OF run] by auto
  with inj eq have "(k1, e1) = (k2, e2)" by (auto simp: inj_on_def)
  with ne show False by simp
qed

lemma run_names_distinct:
  assumes run: "steps (reset comps) g"
    and inj_idx: "\<forall>k k' c. lookup_truthy comps k = Some c \<and> lookup_truthy comps k' = Some c \<longrightarrow> k = k'"
    and nofb: "\<forall>k i. lookup_truthy comps k \<noteq> Some (''NestedType'' @ show_nat i)"
    and e1: "(k1, e1) \<in> set (extractedSchemas g)"
    and e2: "(k2, e2) \<in> set (extractedSchemas g)"
    and ne: "k1 \<noteq> k2"
  shows "name e1 \<noteq> name e2"
proof -
  note inv = run_invariants [OF run]
  let ?fb = "filter (\<lambda>(k, e). lookup_truthy (componentSchemas g) k = None) (extractedSchemas g)"
  have inj: "inj_on (\<lambda>(k, e). name e) (set ?fb)"
    using fallback_names_distinct [OF run] by (simp add: fallback_names_def distinct_map)
  have numbered: "\<exists>i. name e = ''NestedType'' @ show_nat i"
    if "(k, e) \<in> set (extractedSchemas g)" "lookup_truthy comps k = None" for k e
  proof -
    have "name e \<in> set (fallback_names g)"
      using that inv(5) by (force simp: fallback_names_def)
    then show ?thesis unfolding inv(4) by auto
  qed
  have named: "name e = c"
    if "(k, e) \<in> set (extractedSchemas g)" "lookup_truthy comps k = Some c" for k e c
    using inv(2) that inv(5) by (auto simp: component_named_def list_all_iff)
  show ?thesis
  proof (cases "lookup_truthy comps k1")
    case None
    note n1 = None
    show ?thesis
    proof (cases "lookup_truthy comps k2")
      case None
      show ?thesis
      proof
        assume eq: "name e1 = name e2"
        have "(k1, e1) \<in> set ?fb" "(k2, e2) \<in> set ?fb"
          using e1 e2 n1 None inv(5) by auto
        with inj eq have "(k1, e1) = (k2, e2)" by (auto simp: inj_on_def)
        with ne show False by simp
      qed
    next
      case (Some c)
      from numbered [OF e1 n1] obtain i where "name e1 = ''NestedType'' @ show_nat i" by blast
      moreover have "name e2 = c" using named [OF e2 Some] .
      ultimately show ?thesis using nofb Some by metis
    qed
  next
    case (Some c)
    note s1 = Some
    have n1: "name e1 = c" using named [OF e1 Some] .
    show ?thesis
    proof (cases "lookup_truthy comps k2")
      case None
      from numbered [OF e2 None] obtain i where "name e2 = ''NestedType'' @ show_nat i" by blast
      with n1 show ?thesis using nofb s1 by metis
    next
      case (Some c')
      have "name e2 = c'" using named [OF e2 Some] .
      with n1 show ?thesis using inj_idx s1 Some ne by metis
    qed
  qed
qed

text \<open>
  C6, as the code names entries. In one run, two distinct fingerprints that both get a
  generated fallback name never share it, because the counter grows with every such
  registration. No suffix is appended anywhere; all names of the table are pairwise
  distinct when, in addition, the component name index gives distinct fingerprints
  distinct names and none of its names has the form \<^verbatim>\<open>NestedTypeN\<close>.
\<close>

theorem names_unique:
  assumes run: "steps (reset comps) g"
    and e1: "(k1, e1) \<in> set (extractedSchemas g)"
    and e2: "(k2, e2) \<in> set (extractedSchemas g)"
    and ne: "k1 \<noteq> k2"
  shows "(lookup_truthy comps k1 = None \<and> lookup_truthy comps k2 = None \<longrightarrow> name e1 \<noteq> name e2)
    \<and> ((\<forall>k k' c. lookup_truthy comps k = Some c \<and> lookup_truthy comps k' = Some c \<longrightarrow> k = k')
        \<and> (\<forall>k i. lookup_truthy comps k \<noteq> Some (''NestedType'' @ show_nat i))
        \<longrightarrow> name e1 \<noteq> name e2)"
  using run_fallback_names_differ [OF run e1 e2 ne] run_names_distinct [OF run _ _ e1 e2 ne]
  by blast

theorem names_unique_witness:
  "steps (reset no_components) two_registered
   \<and> (JSON_stringify owner_schema, \<lparr>schema = owner_schema, name = ''NestedType1''\<rparr>)
       \<in> set (extractedSchemas two_registered)
   \<and> (JSON_stringify point_schema, \<lparr>schema = point_schema, name = ''NestedType2''\<rparr>)
       \<in> set (extractedSchemas two_registered)
   \<and> JSON_stringify owner_schema \<noteq> JSON_stringify point_schema
   \<and> lookup_truthy no_components (JSON_stringify owner_schema) = None
   \<and> lookup_truthy no_components (JSON_stringify point_schema) = None
   \<and> name \<lparr>schema = owner_schema, name = ''NestedType1''\<rparr>
       \<noteq> name \<lparr>schema = point_schema, name = ''NestedType2''\<rparr>"
proof -
  have e1: "(JSON_stringify owner_schema, \<lparr>schema = owner_schema, name = ''NestedType1''\<rparr>)
       \<in> set (extractedSchemas two_registered)"
    and e2: "(JSON_stringify point_schema, \<lparr>schema = point_schema, name = ''NestedType2''\<rparr>)
       \<in> set (extractedSchemas two_registered)"
    by (simp_all add: two_registered_table)
  from names_unique [OF steps_two_registered e1 e2 keys_differ]
  show ?thesis
    using steps_two_registered e1 e2 keys_differ no_components_lookup by blast
qed

text \<open>
  The claim as stated fails when the author names a component \<^verbatim>\<open>NestedType1\<close>: an
  unnamed schema registered first gets the fallback name \<^verbatim>\<open>NestedType1\<close>, the
  component gets its own name, and two distinct fingerprints share one name.
\<close>

theorem names_unique_counterexample:
  "steps (reset clash_components) clash_registered
   \<and> map fst (extractedSchemas clash_registered)
       = [JSON_stringify point_schema, JSON_stringify owner_schema]
   \<and> JSON_stringify point_schema \<noteq> JSON_stringify owner_schema
   \<and> map (\<lambda>ke. name (snd ke)) (extractedSchemas clash_registered)
       = [''NestedType1'', ''NestedType1'']"
  using steps_clash_registered keys_differ by (simp add: clash_registered_table)

section \<open>Types and validators\<close>

lemma run_registered:
  assumes run: "steps (reset comps) g"
  shows "\<exists>e. map_of (extractedSchemas (snd (extractNestedSchema s g))) (JSON_stringify s) = Some e
            \<and> name e = fst (extractNestedSchema s g)"
proof -
  note inv = run_invariants [OF run]
  show ?thesis
  proof (cases "lookup_truthy (componentSchemas g) (JSON_stringify s)")
    case None
    then show ?thesis
      by (cases "map_of (extractedSchemas g) (JSON_stringify s)")
         (auto simp: extractNestedSchema_def register_schema_cases map_add_def)
  next
    case (Some c)
    show ?thesis
    proof (cases "map_of (extractedSchemas g) (JSON_stringify s)")
      case None
      with Some show ?thesis
        by (auto simp: extractNestedSchema_def register_schema_cases map_add_def)
    next
      case (Some e)
      with \<open>lookup_truthy _ _ = Some c\<close> component_named_entry [OF inv(2) Some] show ?thesis
        by (auto simp: extractNestedSchema_def register_schema_cases)
    qed
  qed
qed

lemma generateZodSchema_object:
  assumes "generateZodSchema nm s g = Inr (d, g')" and "hoistable s"
  shows "\<exists>props. d = ''export const '' @ nm @ ''Schema = z.object({'' @ newline
                       @ join newline props @ newline @ ''});''"
proof -
  obtain fs where "s = JObj fs" using assms(2) by (cases s) (auto simp: hoistable_def)
  with assms show ?thesis
    by (auto simp: generateZodSchema_def hoistable_def split: sum.splits)
qed

lemma zod_declarations_all:
  assumes "zod_declarations es g = Inr (ds, g')" and "list_all (\<lambda>e. hoistable (schema e)) es"
  shows "list_all2
     (\<lambda>e d. \<exists>props. d = ''export const '' @ name e @ ''Schema = z.object({'' @ newline
                           @ join newline props @ newline @ ''});'')
     es ds"
  using assms
proof (induction es arbitrary: g ds)
  case Nil
  then show ?case by simp
next
  case (Cons e es)
  from Cons.prems(1) obtain d g1 rest where
    a: "generateZodSchema (name e) (schema e) g = Inr (d, g1)" and
    b: "zod_declarations es g1 = Inr (rest, g')" and
    ds: "ds = d # rest"
    by (auto split: sum.splits)
  from Cons.prems(2) have h: "hoistable (schema e)" and hs: "list_all (\<lambda>e. hoistable (schema e)) es"
    by simp_all
  from generateZodSchema_object [OF a h] Cons.IH [OF b hs] ds show ?case by simp
qed

lemma clash_params:
  "tools_zod_types [clash_tool] clash_start
     = Inr ([[''array(NestedType1Schema)'', ''array(NestedType1Schema)'']], clash_registered)"
proof -
  have p: "schemaToZodType (JObj [(''type'', JStr ''array''), (''items'', point_schema)]) clash_start
      = Inr (''array(NestedType1Schema)'', snd (extractNestedSchema point_schema clash_start))"
    using hoisted_items_ZodType [OF hoistable_point, of clash_start] extract_point_clash
    by (metis append_Cons append_Nil fst_conv)
  have o: "schemaToZodType (JObj [(''type'', JStr ''array''), (''items'', owner_schema)])
        (snd (extractNestedSchema point_schema clash_start))
      = Inr (''array(NestedType1Schema)'', clash_registered)"
    using hoisted_items_ZodType [OF hoistable_owner,
        of "snd (extractNestedSchema point_schema clash_start)"] extract_owner_clash
    by simp
  show ?thesis
    using p o truthy_examples
    by (simp add: clash_tool_def param_schema_def del: schemaToZodType.simps)
qed

text \<open>
  C7, under the condition that makes names unique. Let the component name index give
  distinct fingerprints distinct names, none of the form \<^verbatim>\<open>NestedTypeN\<close>. When
  \<^verbatim>\<open>schemaToTypeScript\<close> hoists a schema in a state of a run, its result is a name
  \<open>n\<close>, and \<^verbatim>\<open>schemaToZodType\<close> on the same schema in the same state yields
  \<open>nSchema\<close> and the same new state: both consume one registration. In any later
  state of the run the validator pass emits one \<^verbatim>\<open>z.object\<close> declaration per table
  entry, named after the entry, and exactly one entry is named \<open>n\<close>.
\<close>

theorem type_validator_symmetry:
  assumes run: "steps (reset comps) g"
    and inj_idx: "\<forall>k k' c. lookup_truthy comps k = Some c \<and> lookup_truthy comps k' = Some c \<longrightarrow> k = k'"
    and nofb: "\<forall>k i. lookup_truthy comps k \<noteq> Some (''NestedType'' @ show_nat i)"
    and hoist: "hoistable s" "\<not> truthy_opt (get_field s ''enum'')"
    and ts: "schemaToTypeScript s g = Inr (t, g1)"
    and later: "steps g1 g2"
    and zod: "zod_declarations (map_values (extractedSchemas g2)) g2 = Inr (ds, g3)"
  shows "\<exists>n. t = (if truthy_opt (get_field s ''nullable'') then n @ '' | null'' else n)
      \<and> schemaToZodType s g =
          Inr (if truthy_opt (get_field s ''nullable'')
               then n @ ''Schema'' @ ''.nullable()'' else n @ ''Schema'', g1)
      \<and> list_all2
          (\<lambda>ke d. \<exists>props. d = ''export const '' @ name (snd ke) @ ''Schema = z.object({''
                                @ newline @ join newline props @ newline @ ''});'')
          (extractedSchemas g2) ds
      \<and> length (filter (\<lambda>ke. name (snd ke) = n) (extractedSchemas g2)) = 1"
proof -
  let ?n = "fst (extractNestedSchema s g)"
  let ?k = "JSON_stringify s"
  from hoisted_TypeScript [OF hoist, of g] ts
  have t: "t = (if truthy_opt (get_field s ''nullable'') then ?n @ '' | null'' else ?n)"
    and g1: "g1 = snd (extractNestedSchema s g)"
    by simp_all
  have z: "schemaToZodType s g =
          Inr (if truthy_opt (get_field s ''nullable'')
               then ?n @ ''Schema'' @ ''.nullable()'' else ?n @ ''Schema'', g1)"
    using hoisted_ZodType [OF hoist, of g] g1 by simp
  have run1: "steps (reset comps) g1"
    using steps_trans [OF schemaToTypeScript_steps(1) [OF ts] run] .
  have run2: "steps (reset comps) g2"
    using steps_trans [OF later run1] .
  from run_registered [OF run, of s] g1 obtain e where
    e: "map_of (extractedSchemas g1) ?k = Some e" "name e = ?n" by auto
  from steps_prefix [OF later] obtain ext where
    ext: "extractedSchemas g2 = extractedSchemas g1 @ ext" by blast
  have mem: "(?k, e) \<in> set (extractedSchemas g2)"
    using map_of_SomeD [OF e(1)] ext by simp
  have keys: "distinct (map fst (extractedSchemas g2))"
    using run_invariants(1) [OF run2] .
  have uniq: "name (snd ke) = ?n \<longleftrightarrow> ke = (?k, e)" if "ke \<in> set (extractedSchemas g2)" for ke
  proof
    assume eq: "name (snd ke) = ?n"
    show "ke = (?k, e)"
    proof (rule ccontr)
      assume ne: "ke \<noteq> (?k, e)"
      obtain k' e' where ke: "ke = (k', e')" by (cases ke)
      have "k' \<noteq> ?k"
      proof
        assume "k' = ?k"
        with keys that mem ke have "e' = e"
          by (metis eq_key_imp_eq_value)
        with \<open>k' = ?k\<close> ke ne show False by simp
      qed
      from run_names_distinct [OF run2 inj_idx nofb _ mem this, of e'] that ke
      have "name e' \<noteq> name e" by simp
      with eq ke e(2) show False by simp
    qed
  next
    assume "ke = (?k, e)"
    with e(2) show "name (snd ke) = ?n" by simp
  qed
  have "filter (\<lambda>ke. name (snd ke) = ?n) (extractedSchemas g2)
      = filter (\<lambda>ke. ke = (?k, e)) (extractedSchemas g2)"
    using uniq by (auto intro: filter_cong)
  moreover have "distinct (extractedSchemas g2)"
    using keys by (simp add: distinct_map)
  ultimately have one: "length (filter (\<lambda>ke. name (snd ke) = ?n) (extractedSchemas g2)) = 1"
    using mem by (simp add: distinct_length_filter) 
  have "list_all (\<lambda>e. hoistable (schema e)) (map_values (extractedSchemas g2))"
    using run_invariants(3) [OF run2]
    by (auto simp: self_keyed_def map_values_def list_all_iff)
  from zod_declarations_all [OF zod this]
  have decls: "list_all2
          (\<lambda>ke d. \<exists>props. d = ''export const '' @ name (snd ke) @ ''Schema = z.object({''
                                @ newline @ join newline props @ newline @ ''});'')
          (extractedSchemas g2) ds"
    by (simp add: map_values_def list_all2_map1)
  from t z decls one show ?thesis by blast
qed

theorem type_validator_symmetry_witness:
  "steps (reset no_components) start
   \<and> hoistable owner_schema
   \<and> \<not> truthy_opt (get_field owner_schema ''enum'')
   \<and> schemaToTypeScript owner_schema start = Inr (''NestedType1'', owner_registered)
   \<and> steps owner_registered owner_registered
   \<and> zod_declarations (map_values (extractedSchemas owner_registered)) owner_registered
       = Inr ([owner_validator ''NestedType1''], owner_registered)
   \<and> (\<exists>n. ''NestedType1''
           = (if truthy_opt (get_field owner_schema ''nullable'') then n @ '' | null'' else n)
        \<and> schemaToZodType owner_schema start =
            Inr (if truthy_opt (get_field owner_schema ''nullable'')
                 then n @ ''Schema'' @ ''.nullable()'' else n @ ''Schema'', owner_registered)
        \<and> list_all2
            (\<lambda>ke d. \<exists>props. d = ''export const '' @ name (snd ke) @ ''Schema = z.object({''
                                  @ newline @ join newline props @ newline @ ''});'')
            (extractedSchemas owner_registered) [owner_validator ''NestedType1'']
        \<and> length (filter (\<lambda>ke. name (snd ke) = n) (extractedSchemas owner_registered)) = 1)"
proof -
  have s0: "steps (reset no_components) start" by (simp add: start_def steps_refl)
  have idx: "\<forall>k k' c. lookup_truthy no_components k = Some c
      \<and> lookup_truthy no_components k' = Some c \<longrightarrow> k = k'"
    "\<forall>k i. lookup_truthy no_components k \<noteq> Some (''NestedType'' @ show_nat i)"
    by (simp_all add: no_components_lookup)
  have ts: "schemaToTypeScript owner_schema start = Inr (''NestedType1'', owner_registered)"
    using hoisted_TypeScript [OF hoistable_owner owner_no_enum, of start] owner_not_nullable
      extract_owner_start
    by simp
  have zod: "zod_declarations (map_values (extractedSchemas owner_registered)) owner_registered
       = Inr ([owner_validator ''NestedType1''], owner_registered)"
    by (simp add: owner_registered_table map_values_def generateZodSchema_owner)
  note concl = type_validator_symmetry [OF s0 idx hoistable_owner owner_no_enum ts steps_refl zod]
  show ?thesis
    by (intro conjI s0 hoistable_owner owner_no_enum ts steps_refl zod concl)
qed

text \<open>
  The claim as stated fails in the run of a tool with two array parameters, the first
  with unnamed items, the second with items the author named \<^verbatim>\<open>NestedType1\<close>: both
  parameters refer to \<^verbatim>\<open>NestedType1Schema\<close>, and the validator pass declares this name
  twice with different content.
\<close>

theorem validator_clash_counterexample:
  "map_sum id (\<lambda>r. (zodTypes (fst r), nestedZod (fst r)))
     (generateTypeScriptFiles [clash_tool] clash_start)
   = Inr ([[''array(NestedType1Schema)'', ''array(NestedType1Schema)'']],
          point_validator ''NestedType1'' @ newline @ newline @ owner_validator ''NestedType1'')
   \<and> point_validator ''NestedType1'' \<noteq> owner_validator ''NestedType1''"
proof -
  have r: "responseSchemaMap [clash_tool] = []"
    by (simp add: responseSchemaMap_def add_response_def clash_tool_def)
  have ne: "point_validator ''NestedType1'' \<noteq> []" "owner_validator ''NestedType1'' \<noteq> []"
    by (simp_all add: point_validator_def owner_validator_def)
  have d: "point_validator ''NestedType1'' \<noteq> owner_validator ''NestedType1''"
    by (simp add: point_validator_def owner_validator_def)
  have i: "point_interface ''NestedType1'' \<noteq> []" "owner_interface ''NestedType1'' \<noteq> []"
    by (simp_all add: point_interface_def owner_interface_def)
  show ?thesis
    using d ne i
    by (simp add: generateTypeScriptFiles_def clash_params r responseInterfaces_def
        map_values_def nestedInterfaces_def nestedZodSchemas_def clash_registered_table
        generateInterface_point generateInterface_owner generateZodSchema_point
        generateZodSchema_owner del: tools_zod_types.simps)
qed

section \<open>Enumerations without values\<close>




section \<open>Optional members of an interface\<close>

lemma interface_members_blocks:
  assumes "interface_members ind (JArr rs) ps g = Inr (blocks, g')"
  shows "list_all2
     (\<lambda>p b. \<exists>tsType g1 g2.
         schemaToTypeScript (snd p) g1 = Inr (tsType, g2) \<and>
         b = doc_line ind (snd p)
             @ member_line ind (fst p)
                 (if JStr (fst p) \<notin> set rs \<or> truthy_opt (get_field (snd p) ''nullable'')
                  then ''?'' else []) tsType)
     ps blocks"
  using assms
proof (induction ps arbitrary: g blocks)
  case Nil
  then show ?case by simp
next
  case (Cons p ps)
  obtain pn psch where p: "p = (pn, psch)" by (cases p)
  from Cons.prems p obtain tsType g1 rest where
    ts: "schemaToTypeScript psch g = Inr (tsType, g1)" and
    rest: "interface_members ind (JArr rs) ps g1 = Inr (rest, g')" and
    blocks: "blocks =
      (doc_line ind psch
       @ member_line ind pn
           (if JStr pn \<notin> set rs \<or> truthy_opt (get_field psch ''nullable'') then ''?'' else [])
           tsType) # rest"
    by (auto simp: Let_def split: if_splits sum.splits)
  from Cons.IH [OF rest] ts show ?case
    unfolding blocks p by (simp only: list_all2_Cons fst_conv snd_conv) blast
qed

text \<open>
  C10. In the interface \<^verbatim>\<open>generateInterface\<close> writes for an object schema with
  properties and a \<^verbatim>\<open>required\<close> array (or none), there is one block per property, in
  order, and the member line of a property carries \<^verbatim>\<open>?\<close> exactly when its name is
  not in \<^verbatim>\<open>required\<close> or its own schema is nullable; a property that is required and
  nullable is therefore optional.
\<close>

theorem generateInterface_optional_marker:
  assumes "generateInterface nm s indent g = Inr (code, g')"
    and "get_field s ''type'' = Some (JStr ''object'')"
    and "get_field s ''properties'' = Some (JObj ps)"
    and "required_or_empty s = JArr rs"
  shows "\<exists>blocks.
     code = concat (replicate indent ''  '') @ ''export interface '' @ nm @ '' {'' @ newline
            @ concat blocks @ concat (replicate indent ''  '') @ ''}'' @ newline
     \<and> list_all2
         (\<lambda>p b. \<exists>tsType g1 g2.
            schemaToTypeScript (snd p) g1 = Inr (tsType, g2) \<and>
            b = doc_line (concat (replicate indent ''  '')) (snd p)
                @ member_line (concat (replicate indent ''  '')) (fst p)
                    (if JStr (fst p) \<notin> set rs \<or> truthy_opt (get_field (snd p) ''nullable'')
                     then ''?'' else []) tsType)
         ps blocks"
proof -
  obtain fs where s: "s = JObj fs" using assms(2) by (cases s) auto
  from assms(1-3) s assms(4) obtain blocks where
    m: "interface_members (concat (replicate indent ''  '')) (JArr rs) ps g = Inr (blocks, g')"
    and c: "code = concat (replicate indent ''  '') @ ''export interface '' @ nm @ '' {'' @ newline
            @ concat blocks @ concat (replicate indent ''  '') @ ''}'' @ newline"
    by (auto simp: generateInterface_def Let_def split: sum.splits)
  from interface_members_blocks [OF m] c show ?thesis by blast
qed

theorem generateInterface_optional_marker_witness:
  "generateInterface ''Account'' account_schema 0 start = Inr (account_interface, start)
   \<and> get_field account_schema ''type'' = Some (JStr ''object'')
   \<and> get_field account_schema ''properties''
       = Some (JObj [(''id'', number_schema),
                     (''nick'', JObj [(''type'', JStr ''string''), (''nullable'', JBool True)]),
                     (''note'', string_schema)])
   \<and> required_or_empty account_schema = JArr [JStr ''id'', JStr ''nick'']
   \<and> (\<exists>blocks.
        account_interface
          = concat (replicate 0 ''  '') @ ''export interface '' @ ''Account'' @ '' {'' @ newline
            @ concat blocks @ concat (replicate 0 ''  '') @ ''}'' @ newline
        \<and> list_all2
            (\<lambda>p b. \<exists>tsType g1 g2.
               schemaToTypeScript (snd p) g1 = Inr (tsType, g2) \<and>
               b = doc_line (concat (replicate 0 ''  '')) (snd p)
                   @ member_line (concat (replicate 0 ''  '')) (fst p)
                       (if JStr (fst p) \<notin> set [JStr ''id'', JStr ''nick'']
                           \<or> truthy_opt (get_field (snd p) ''nullable'')
                        then ''?'' else []) tsType)
            [(''id'', number_schema),
             (''nick'', JObj [(''type'', JStr ''string''), (''nullable'', JBool True)]),
             (''note'', string_schema)]
            blocks)"
proof -
  have t: "get_field account_schema ''type'' = Some (JStr ''object'')"
    by (simp add: account_schema_def)
  have p: "get_field account_schema ''properties''
       = Some (JObj [(''id'', number_schema),
                     (''nick'', JObj [(''type'', JStr ''string''), (''nullable'', JBool True)]),
                     (''note'', string_schema)])"
    by (simp add: account_schema_def)
  have r: "required_or_empty account_schema = JArr [JStr ''id'', JStr ''nick'']"
    by (simp add: account_schema_def required_or_empty_def)
  note concl = generateInterface_optional_marker [OF generateInterface_account t p r]
  show ?thesis
    by (intro conjI generateInterface_account t p r concl)
qed

section \<open>A schema that contains itself\<close>

text \<open>
  C8 fails on the code. For an object with three properties one of which is the object
  itself, \<^verbatim>\<open>JSON.stringify\<close> raises a \<^verbatim>\<open>TypeError\<close>; \<^verbatim>\<open>extractNestedSchema\<close> does
  not catch it, and the \<^verbatim>\<open>catch\<close> of \<^verbatim>\<open>generate\<close> turns it into a
  \<^verbatim>\<open>GenerationError\<close>: the run aborts.
\<close>

theorem cyclic_schema_aborts:
  "JSON_stringify_g cyclic_heap [] (GRef 0) = Inl TypeError
   \<and> extractNestedSchema_g cyclic_heap (GRef 0) (reset no_components) = Inl TypeError
   \<and> rethrow (extractNestedSchema_g cyclic_heap (GRef 0) (reset no_components))
       = Inl GenerationError"
  by (simp add: cyclic_heap_def extractNestedSchema_g_def rethrow_def)


end
